theory Spec2Isabelle
  imports Main "HOL-Library.Word" "HOL-Library.Sublist"
begin

unbundle bit_operations_syntax

section \<open>The guest init program: data model\<close>

text \<open>
  The model follows \<^verbatim>\<open>src/guest/init.c\<close>. C text (\<^verbatim>\<open>char *\<close>) is a \<^typ>\<open>string\<close>,
  raw data (\<^verbatim>\<open>unsigned char *\<close>) a list of 8-bit words, an \<^verbatim>\<open>unsigned int\<close> a 32-bit
  word. A function that returns a pointer returns an option: \<open>None\<close> is \<^verbatim>\<open>NULL\<close>.
  Whether an allocation succeeds is an input of the function that allocates; the
  \<^verbatim>\<open>strdup\<close> of a literal response line is taken to succeed.
  An access outside the object it indexes is undefined behaviour in C; the model
  reports it as a \<open>fault\<close> (\<open>Inl\<close>) instead of inventing a value. The base64
  decoder has a second model, of the call as the machine runs it, which takes the
  bytes around its input as a parameter.
\<close>

type_synonym byte = "8 word"

datatype fault = Read_Out_Of_Bounds | Write_Out_Of_Bounds

definition MAX_REQUEST_SIZE :: nat where
  "MAX_REQUEST_SIZE = 128 * 1024 * 1024"

definition MAX_RESPONSE_SIZE :: nat where
  "MAX_RESPONSE_SIZE = 128 * 1024 * 1024"


definition BASE64_DECODE_SIZE :: "nat \<Rightarrow> nat" where
  "BASE64_DECODE_SIZE n = (n + 3) div 4 * 3"

section \<open>Base64\<close>

definition base64_table :: string where
  "base64_table = ''ABCDEFGHIJKLMNOPQRSTUVWXYZabcdefghijklmnopqrstuvwxyz0123456789+/''"

definition base64_decode_table :: "int list" where
  "base64_decode_table = concat
    [[ -1,  -1,  -1,  -1,  -1,  -1,  -1,  -1,  -1,  -1,  -1,  -1,  -1,  -1,  -1,  -1],
     [ -1,  -1,  -1,  -1,  -1,  -1,  -1,  -1,  -1,  -1,  -1,  -1,  -1,  -1,  -1,  -1],
     [ -1,  -1,  -1,  -1,  -1,  -1,  -1,  -1,  -1,  -1,  -1,  62,  -1,  -1,  -1,  63],
     [ 52,  53,  54,  55,  56,  57,  58,  59,  60,  61,  -1,  -1,  -1,  -1,  -1,  -1],
     [ -1,   0,   1,   2,   3,   4,   5,   6,   7,   8,   9,  10,  11,  12,  13,  14],
     [ 15,  16,  17,  18,  19,  20,  21,  22,  23,  24,  25,  -1,  -1,  -1,  -1,  -1],
     [ -1,  26,  27,  28,  29,  30,  31,  32,  33,  34,  35,  36,  37,  38,  39,  40],
     [ 41,  42,  43,  44,  45,  46,  47,  48,  49,  50,  51,  -1,  -1,  -1,  -1,  -1],
     [ -1,  -1,  -1,  -1,  -1,  -1,  -1,  -1,  -1,  -1,  -1,  -1,  -1,  -1,  -1,  -1],
     [ -1,  -1,  -1,  -1,  -1,  -1,  -1,  -1,  -1,  -1,  -1,  -1,  -1,  -1,  -1,  -1],
     [ -1,  -1,  -1,  -1,  -1,  -1,  -1,  -1,  -1,  -1,  -1,  -1,  -1,  -1,  -1,  -1],
     [ -1,  -1,  -1,  -1,  -1,  -1,  -1,  -1,  -1,  -1,  -1,  -1,  -1,  -1,  -1,  -1],
     [ -1,  -1,  -1,  -1,  -1,  -1,  -1,  -1,  -1,  -1,  -1,  -1,  -1,  -1,  -1,  -1],
     [ -1,  -1,  -1,  -1,  -1,  -1,  -1,  -1,  -1,  -1,  -1,  -1,  -1,  -1,  -1,  -1],
     [ -1,  -1,  -1,  -1,  -1,  -1,  -1,  -1,  -1,  -1,  -1,  -1,  -1,  -1,  -1,  -1],
     [ -1,  -1,  -1,  -1,  -1,  -1,  -1,  -1,  -1,  -1,  -1,  -1,  -1,  -1,  -1,  -1]]"

text \<open>
  One pass of the encoder's loop at index \<open>i < len\<close>: the three bytes from \<open>i\<close> packed
  into \<open>n\<close> (a missing byte leaves its bits 0) and the four characters stored at \<open>p\<close>.
\<close>

definition enc_quad :: "byte list \<Rightarrow> nat \<Rightarrow> string" where
  "enc_quad data i =
    (let len = length data;
         n0 = push_bit 16 (ucast (data ! i) :: 32 word);
         n1 = (if i + 1 < len then n0 OR push_bit 8 (ucast (data ! (i + 1))) else n0);
         n = (if i + 2 < len then n1 OR ucast (data ! (i + 2)) else n1)
     in [base64_table ! unat (drop_bit 18 n AND 0x3F),
         base64_table ! unat (drop_bit 12 n AND 0x3F),
         if i + 1 < len then base64_table ! unat (drop_bit 6 n AND 0x3F) else CHR ''='',
         if i + 2 < len then base64_table ! unat (n AND 0x3F) else CHR ''=''])"




text \<open>
  \<^verbatim>\<open>data[i]\<close> in the decoder, whose input is the \<open>len\<close> characters of \<open>data\<close>. The index
  is an integer: at \<open>len = 0\<close> the C expression \<^verbatim>\<open>len - 1\<close> wraps to \<^verbatim>\<open>SIZE_MAX\<close> and
  \<^verbatim>\<open>data[len - 1]\<close> is the byte before the buffer, index \<open>-1\<close> here.
\<close>

definition rd :: "string \<Rightarrow> int \<Rightarrow> fault + char" where
  "rd data i =
    (if 0 \<le> i \<and> i < int (length data) then Inr (data ! nat i) else Inl Read_Out_Of_Bounds)"

definition tbl :: "char \<Rightarrow> int" where
  "tbl c = base64_decode_table ! (of_char c)"

text \<open>
  The body of the decoder's loop on the four characters read at \<open>i\<close>: \<open>None\<close> when the
  loop returns \<^verbatim>\<open>NULL\<close>, else the bytes it stores at \<open>out[j]\<close> onwards.
\<close>

definition dec_quad :: "char \<Rightarrow> char \<Rightarrow> char \<Rightarrow> char \<Rightarrow> byte list option" where
  "dec_quad c0 c1 c2 c3 =
    (let a = tbl c0; b = tbl c1; c = tbl c2; d = tbl c3 in
     if a < 0 \<or> b < 0 then None
     else if c2 \<noteq> CHR ''='' \<and> c < 0 then None
     else if c3 \<noteq> CHR ''='' \<and> d < 0 then None
     else
       let n = (word_of_int
                 (push_bit 18 a OR push_bit 12 b OR push_bit 6 (if c \<ge> 0 then c else 0)
                   OR (if d \<ge> 0 then d else 0)) :: 32 word)
       in Some ([ucast (drop_bit 16 n AND 0xFF)]
              @ (if c2 \<noteq> CHR ''='' then [ucast (drop_bit 8 n AND 0xFF)] else [])
              @ (if c3 \<noteq> CHR ''='' then [ucast (n AND 0xFF)] else [])))"

function dec_loop :: "string \<Rightarrow> nat \<Rightarrow> byte list \<Rightarrow> fault + byte list option" where
  "dec_loop data i out =
    (if i < length data then
       (case rd data (int i) of Inl f \<Rightarrow> Inl f | Inr c0 \<Rightarrow>
       (case rd data (int i + 1) of Inl f \<Rightarrow> Inl f | Inr c1 \<Rightarrow>
       (case rd data (int i + 2) of Inl f \<Rightarrow> Inl f | Inr c2 \<Rightarrow>
       (case rd data (int i + 3) of Inl f \<Rightarrow> Inl f | Inr c3 \<Rightarrow>
       (case dec_quad c0 c1 c2 c3 of None \<Rightarrow> Inr None
        | Some bs \<Rightarrow> dec_loop data (i + 4) (out @ bs))))))
     else Inr (Some out))"
  by pat_completeness auto
termination
  by (relation "measure (\<lambda>(data, i, out). length data - i)") auto

declare dec_loop.simps [simp del]

text \<open>
  The decoder. \<open>olen\<close> is the size it computes for the output; the buffer has
  \<open>olen + 1\<close> bytes, and the loop's stores and the final NUL at \<open>out[j]\<close> are inside it
  exactly when \<open>j \<le> olen\<close>. \<open>mem\<close>: the \<^verbatim>\<open>malloc\<close> succeeds.
\<close>

definition base64_decode :: "bool \<Rightarrow> string \<Rightarrow> fault + byte list option" where
  "base64_decode mem data =
    (let len = length data in
     if len mod 4 \<noteq> 0 then Inr None
     else
       (case rd data (int len - 1) of Inl f \<Rightarrow> Inl f | Inr p1 \<Rightarrow>
       (case rd data (int len - 2) of Inl f \<Rightarrow> Inl f | Inr p2 \<Rightarrow>
         (let olen0 = BASE64_DECODE_SIZE len;
              olen1 = (if p1 = CHR ''='' then olen0 - 1 else olen0);
              olen = (if p2 = CHR ''='' then olen1 - 1 else olen1)
          in if \<not> mem then Inr None
             else
               (case dec_loop data 0 [] of Inl f \<Rightarrow> Inl f
                | Inr None \<Rightarrow> Inr None
                | Inr (Some out) \<Rightarrow>
                    if length out \<le> olen then Inr (Some out)
                    else Inl Write_Out_Of_Bounds)))))"





text \<open>
  Proof devices for the two loops: the same passes, by recursion on the data left
  from the loop's index on, and the 24 bits the encoder packs from three bytes.
\<close>

fun enc_list :: "byte list \<Rightarrow> string" where
  "enc_list [] = []"
| "enc_list [a] = enc_quad [a] 0"
| "enc_list [a, b] = enc_quad [a, b] 0"
| "enc_list (a # b # c # r) = enc_quad [a, b, c] 0 @ enc_list r"

fun dec_list :: "string \<Rightarrow> byte list option" where
  "dec_list (c0 # c1 # c2 # c3 # r) =
    (case dec_quad c0 c1 c2 c3 of None \<Rightarrow> None
     | Some bs \<Rightarrow> (case dec_list r of None \<Rightarrow> None | Some rest \<Rightarrow> Some (bs @ rest)))"
| "dec_list xs = Some []"



text \<open>The number of \<open>=\<close> among the last two characters, as the decoder counts them.\<close>

definition pads :: "string \<Rightarrow> nat" where
  "pads s = (if last s = CHR ''='' then 1 else 0) + (if last (butlast s) = CHR ''='' then 1 else 0)"

section \<open>C strings and the JSON helpers\<close>

text \<open>
  A C string is the list of its characters before the terminating NUL; a pointer that
  walks a string is the list of the characters from it on, and \<^verbatim>\<open>*p\<close> is NUL exactly
  when that list is empty. \<open>c_str\<close> is the C string that starts a buffer.
\<close>

abbreviation DQ :: char where "DQ \<equiv> CHR 0x22"
abbreviation BS :: char where "BS \<equiv> CHR 0x5C"
abbreviation LF :: char where "LF \<equiv> CHR 0x0A"
abbreviation CR :: char where "CR \<equiv> CHR 0x0D"
abbreviation TAB :: char where "TAB \<equiv> CHR 0x09"
abbreviation NUL :: char where "NUL \<equiv> CHR 0x00"

definition c_str :: "string \<Rightarrow> string" where
  "c_str buf = takeWhile (\<lambda>c. c \<noteq> NUL) buf"

text \<open>\<^verbatim>\<open>strstr\<close>: the string from the first occurrence of \<open>needle\<close> on, or \<^verbatim>\<open>NULL\<close>.\<close>

fun strstr :: "string \<Rightarrow> string \<Rightarrow> string option" where
  "strstr [] needle = (if needle = [] then Some [] else None)"
| "strstr (c # cs) needle =
    (if prefix needle (c # cs) then Some (c # cs) else strstr cs needle)"

text \<open>\<^verbatim>\<open>strchr\<close> for a character other than NUL.\<close>

definition strchr :: "string \<Rightarrow> char \<Rightarrow> string option" where
  "strchr s c = (case dropWhile (\<lambda>x. x \<noteq> c) s of [] \<Rightarrow> None | r \<Rightarrow> Some r)"

text \<open>\<^verbatim>\<open>snprintf(search, sizeof(search), "\"%s\"", key)\<close> with \<^verbatim>\<open>char search[256]\<close>.\<close>

definition search_key :: "string \<Rightarrow> string" where
  "search_key key = take 255 ([DQ] @ key @ [DQ])"

text \<open>\<^verbatim>\<open>while (*start && (*start == ' ' || *start == ':' || *start == '\t')) start++;\<close>\<close>

definition skip_sep :: "string \<Rightarrow> string" where
  "skip_sep start = dropWhile (\<lambda>c. c = CHR '' '' \<or> c = CHR '':'' \<or> c = TAB) start"

text \<open>
  The scan for the closing quote,
  \<^verbatim>\<open>while (*end && *end != '"') { if (*end == '\\' && *(end + 1)) end++; end++; }\<close>:
  the characters from \<open>start\<close> up to \<open>end\<close>, and the string at \<open>end\<close>.
\<close>

fun scan_string :: "string \<Rightarrow> string \<times> string" where
  "scan_string [] = ([], [])"
| "scan_string [c] = (if c = DQ then ([], [c]) else ([c], []))"
| "scan_string (c # d # ds) =
    (if c = DQ then ([], c # d # ds)
     else if c = BS then (let (raw, rest) = scan_string ds in (c # d # raw, rest))
     else (let (raw, rest) = scan_string (d # ds) in (c # raw, rest)))"

text \<open>
  The copy loop over the \<open>len\<close> characters between the quotes: a backslash that is not
  the last character takes the next character through the \<^verbatim>\<open>switch\<close> \<open>sw\<close>; every other
  character is copied.
\<close>

fun unescape_loop :: "(char \<Rightarrow> char) \<Rightarrow> string \<Rightarrow> string" where
  "unescape_loop sw [] = []"
| "unescape_loop sw [c] = [c]"
| "unescape_loop sw (c # d # ds) =
    (if c = BS then sw d # unescape_loop sw ds else c # unescape_loop sw (d # ds))"

text \<open>The \<^verbatim>\<open>switch\<close> of \<open>json_get_string\<close>.\<close>

definition get_string_switch :: "char \<Rightarrow> char" where
  "get_string_switch c =
    (if c = CHR ''n'' then LF
     else if c = CHR ''r'' then CR
     else if c = CHR ''t'' then TAB
     else if c = BS then BS
     else if c = DQ then DQ
     else c)"

text \<open>\<open>mem\<close>: the \<^verbatim>\<open>malloc\<close> of the result succeeds.\<close>

definition json_get_string :: "bool \<Rightarrow> string \<Rightarrow> string \<Rightarrow> string option" where
  "json_get_string mem json key =
    (case strstr json (search_key key) of
       None \<Rightarrow> None
     | Some found \<Rightarrow>
        (case skip_sep (drop (length (search_key key)) found) of
           [] \<Rightarrow> None
         | c # start \<Rightarrow>
            if c \<noteq> DQ then None
            else
              (let (raw, rest) = scan_string start
               in if \<not> mem then None else Some (unescape_loop get_string_switch raw))))"

text \<open>
  \<^verbatim>\<open>atoi\<close> is the C library's: white space, an optional sign, decimal digits. As in
  glibc it is \<^verbatim>\<open>(int) strtol(s, NULL, 10)\<close>: the value is clamped to the range of
  \<^verbatim>\<open>long\<close> (64 bits), then cut to the 32 bits of an \<^verbatim>\<open>int\<close>.
\<close>

definition isspace :: "char \<Rightarrow> bool" where
  "isspace c = (c = CHR '' '' \<or> (9 \<le> (of_char c :: nat) \<and> (of_char c :: nat) \<le> 13))"

definition isdigit :: "char \<Rightarrow> bool" where
  "isdigit c = (48 \<le> (of_char c :: nat) \<and> (of_char c :: nat) \<le> 57)"

definition digits_value :: "string \<Rightarrow> int" where
  "digits_value ds = foldl (\<lambda>acc c. acc * 10 + (of_char c - 48)) 0 ds"

definition strtol10 :: "string \<Rightarrow> int" where
  "strtol10 s =
    (let s1 = dropWhile isspace s;
         neg = (s1 \<noteq> [] \<and> hd s1 = CHR ''-'');
         s2 = (if s1 \<noteq> [] \<and> (hd s1 = CHR ''-'' \<or> hd s1 = CHR ''+'') then tl s1 else s1);
         v = digits_value (takeWhile isdigit s2);
         r = (if neg then - v else v)
     in max (- (2 ^ 63)) (min (2 ^ 63 - 1) r))"

definition atoi :: "string \<Rightarrow> int" where
  "atoi s = sint (word_of_int (strtol10 s) :: 32 word)"

text \<open>
  \<open>json_get_int json key value\<close>: the return code and the content of \<^verbatim>\<open>*value\<close> after
  the call, \<open>value\<close> being its content before.
\<close>

definition json_get_int :: "string \<Rightarrow> string \<Rightarrow> int \<Rightarrow> int \<times> int" where
  "json_get_int json key val =
    (case strstr json (search_key key) of
       None \<Rightarrow> (-1, val)
     | Some found \<Rightarrow> (0, atoi (skip_sep (drop (length (search_key key)) found))))"

text \<open>
  \<open>json_escape\<close>. \<open>escape_char\<close> is what one pass of the loop stores for the character
  \<^verbatim>\<open>str[i]\<close>; for a control character that is the six characters that
  \<^verbatim>\<open>snprintf(out + j, 7, "\\u%04x", ...)\<close> prints. The buffer has \<open>len * 2 + 1\<close> bytes; the
  stores of the loop and the final NUL at \<open>out[j]\<close> are inside it exactly when
  \<open>j + 1 \<le> len * 2 + 1\<close>. \<open>mem\<close>: the \<^verbatim>\<open>malloc\<close> succeeds.
\<close>

definition hex_digit :: "nat \<Rightarrow> char" where
  "hex_digit n = ''0123456789abcdef'' ! (n mod 16)"

definition escape_char :: "char \<Rightarrow> string" where
  "escape_char c =
    (if c = DQ then [BS, DQ]
     else if c = BS then [BS, BS]
     else if c = LF then [BS, CHR ''n'']
     else if c = CR then [BS, CHR ''r'']
     else if c = TAB then [BS, CHR ''t'']
     else if (of_char c :: nat) < 32 then
       [BS, CHR ''u'', CHR ''0'', CHR ''0'', hex_digit (of_char c div 16), hex_digit (of_char c)]
     else [c])"

definition escape_loop :: "string \<Rightarrow> string" where
  "escape_loop str = concat (map escape_char str)"

definition json_escape :: "bool \<Rightarrow> string \<Rightarrow> fault + string option" where
  "json_escape mem str =
    (let len = length str in
     if \<not> mem then Inr None
     else
       (let out = escape_loop str
        in if length out + 1 \<le> len * 2 + 1 then Inr (Some out)
           else Inl Write_Out_Of_Bounds))"

section \<open>Responses and \<^verbatim>\<open>printf\<close> conversions\<close>

text \<open>The digits of \<open>n\<close> in base \<open>b\<close> (\<open>2 \<le> b \<le> 16\<close>), for \<^verbatim>\<open>%d\<close>, \<^verbatim>\<open>%ld\<close> and \<^verbatim>\<open>%o\<close>.\<close>

function digits :: "nat \<Rightarrow> nat \<Rightarrow> string" where
  "digits b n =
    (if b < 2 \<or> n < b then [hex_digit n] else digits b (n div b) @ [hex_digit (n mod b)])"
  by pat_completeness auto
termination
  by (relation "measure snd") auto

declare digits.simps [simp del]

definition print_d :: "int \<Rightarrow> string" where
  "print_d i = (if i < 0 then CHR ''-'' # digits 10 (nat (- i)) else digits 10 (nat i))"

definition print_o :: "nat \<Rightarrow> string" where
  "print_o n = digits 8 n"

text \<open>
  The error line \<^verbatim>\<open>{"success":false,"error":"..."}\n\<close>, which the source writes out
  as a literal (or an \<^verbatim>\<open>asprintf\<close> format) at each place.
\<close>

definition err_line :: "string \<Rightarrow> string" where
  "err_line msg = ''{\"success\":false,\"error\":\"'' @ msg @ ''\"}'' @ [LF]"

section \<open>\<open>handle_file_stat\<close>\<close>

record stat_buf =
  st_size :: int
  st_mode :: nat
  st_mtime :: int

text \<open>
  What the system answers to \<open>handle_file_stat\<close>: the result of \<^verbatim>\<open>stat\<close> (\<open>Inl\<close> the text
  of \<^verbatim>\<open>strerror(errno)\<close> when it fails), the text \<^verbatim>\<open>strftime\<close> prints for
  \<^verbatim>\<open>gmtime(&st.st_mtime)\<close> with the format \<^verbatim>\<open>%Y-%m-%dT%H:%M:%SZ\<close>, and whether
  \<^verbatim>\<open>asprintf\<close> can allocate.
\<close>

record stat_os =
  stat_result :: "string + stat_buf"
  strftime_gmtime :: "int \<Rightarrow> string"
  stat_asprintf :: bool

text \<open>
  \<^verbatim>\<open>S_ISDIR(m)\<close> is \<^verbatim>\<open>((m) & S_IFMT) == S_IFDIR\<close> with \<^verbatim>\<open>S_IFMT = 0170000\<close> and
  \<^verbatim>\<open>S_IFDIR = 0040000\<close> (octal), from the system's headers; \<^verbatim>\<open>07777\<close> is \<open>0xFFF\<close>.
\<close>

definition S_ISDIR :: "nat \<Rightarrow> bool" where
  "S_ISDIR m = (m AND 0xF000 = 0x4000)"

definition handle_file_stat :: "stat_os \<Rightarrow> string \<Rightarrow> string option" where
  "handle_file_stat os path =
    (case stat_result os of
       Inl errno_text \<Rightarrow>
         if stat_asprintf os then Some (err_line (''stat: '' @ errno_text)) else None
     | Inr st \<Rightarrow>
        (let mode = print_o (st_mode st AND 0xFFF);
             mod_time = strftime_gmtime os (st_mtime st)
         in if stat_asprintf os then
              Some (''{\"success\":true,\"data\":{\"path\":\"'' @ path
                    @ ''\",\"size\":'' @ print_d (st_size st)
                    @ '',\"mode\":\"'' @ mode
                    @ ''\",\"mod_time\":\"'' @ mod_time
                    @ ''\",\"is_dir\":'' @ (if S_ISDIR (st_mode st) then ''true'' else ''false'')
                    @ ''}}'' @ [LF])
            else Some (err_line ''out of memory'')))"

section \<open>\<open>handle_exec\<close>\<close>

text \<open>The \<^verbatim>\<open>switch\<close> of the loop that copies one element of the \<open>cmd\<close> array.\<close>

definition exec_arg_switch :: "char \<Rightarrow> char" where
  "exec_arg_switch c =
    (if c = CHR ''n'' then LF
     else if c = CHR ''t'' then TAB
     else c)"

definition is_arg_sep :: "char \<Rightarrow> bool" where
  "is_arg_sep c = (c = CHR '' '' \<or> c = CHR '','' \<or> c = TAB \<or> c = LF)"

text \<open>
  The loop \<^verbatim>\<open>while (*p && *p != ']' && argc < 255)\<close> over the array, from \<open>p\<close> on, with
  the arguments stored so far. \<open>mem k\<close>: the \<^verbatim>\<open>malloc\<close> for the \<open>k\<close>-th quoted element
  succeeds (an element whose allocation fails is skipped).
\<close>

function parse_args :: "(nat \<Rightarrow> bool) \<Rightarrow> string \<Rightarrow> nat \<Rightarrow> string list \<Rightarrow> string list" where
  "parse_args mem p k argv =
    (if p \<noteq> [] \<and> hd p \<noteq> CHR '']'' \<and> length argv < 255 then
       (case dropWhile is_arg_sep p of
          [] \<Rightarrow> argv
        | c # r \<Rightarrow>
            if c = DQ then
              (let raw = fst (scan_string r);
                   end = snd (scan_string r);
                   argv' = (if mem k then argv @ [unescape_loop exec_arg_switch raw] else argv)
               in parse_args mem (if end \<noteq> [] \<and> hd end = DQ then tl end else end) (k + 1) argv')
            else if c \<noteq> CHR '']'' then parse_args mem r k argv
            else argv)
     else argv)"
  by pat_completeness auto
termination
proof (relation "measure (\<lambda>(mem, p, k, argv). length p)")
  show "wf (measure (\<lambda>(mem, p, k, argv). length p))" by simp
next
  fix mem :: "nat \<Rightarrow> bool" and p :: string and k :: nat and argv :: "string list"
    and c r raw e argv'
  assume d: "dropWhile is_arg_sep p = c # r" and e: "e = snd (scan_string r)"
  have scan: "length (snd (scan_string s)) \<le> length s" for s
    by (induction s rule: scan_string.induct) (auto split: prod.splits)
  have "length (c # r) \<le> length p"
    using length_dropWhile_le [of is_arg_sep p] d by simp
  moreover have "length e \<le> length r"
    unfolding e by (rule scan)
  moreover have "length (if e \<noteq> [] \<and> hd e = DQ then tl e else e) \<le> length e"
    by simp
  ultimately show "((mem, if e \<noteq> [] \<and> hd e = DQ then tl e else e, k + 1, argv'), mem, p, k, argv)
      \<in> measure (\<lambda>(mem, p, k, argv). length p)"
    by simp
next
  fix mem :: "nat \<Rightarrow> bool" and p :: string and k :: nat and argv :: "string list" and c r
  assume d: "dropWhile is_arg_sep p = c # r"
  have "length (c # r) \<le> length p"
    using length_dropWhile_le [of is_arg_sep p] d by simp
  then show "((mem, r, k, argv), mem, p, k, argv) \<in> measure (\<lambda>(mem, p, k, argv). length p)"
    by simp
qed

declare parse_args.simps [simp del]

text \<open>
  One pass of the supervising loop, as the system answers it: what the two
  non-blocking reads return (\<open>[]\<close> when \<^verbatim>\<open>read\<close> returns 0 or -1), the status that
  \<^verbatim>\<open>waitpid(pid, &status, WNOHANG)\<close> stores when it returns the child (\<open>None\<close> when it
  returns 0 or -1), what the reads of the two drain loops return in that case,
  \<^verbatim>\<open>time(NULL) - start\<close>, and the status that the blocking \<^verbatim>\<open>waitpid\<close> after the kill
  stores (\<open>None\<close> when it fails and leaves \<open>status\<close> as it was).
\<close>

record poll =
  read_out :: string
  read_err :: string
  wait_nohang :: "int option"
  drain_out :: "string list"
  drain_err :: "string list"
  elapsed :: int
  wait_killed :: "int option"

text \<open>\<^verbatim>\<open>read(fd, buf + len, MAX_RESPONSE_SIZE - len - 1)\<close> when the pipe offers \<open>chunk\<close>.\<close>

definition read_into :: "string \<Rightarrow> string \<Rightarrow> string" where
  "read_into buf chunk = buf @ take (MAX_RESPONSE_SIZE - length buf - 1) chunk"

text \<open>\<^verbatim>\<open>while ((n = read(...)) > 0) len += n;\<close>\<close>

fun drain :: "string \<Rightarrow> string list \<Rightarrow> string" where
  "drain buf [] = buf"
| "drain buf (chunk # chunks) =
    (if take (MAX_RESPONSE_SIZE - length buf - 1) chunk = [] then buf
     else drain (read_into buf chunk) chunks)"

text \<open>C's integer division truncates towards zero.\<close>

definition c_div :: "int \<Rightarrow> int \<Rightarrow> int" where
  "c_div a b = (if (a < 0) = (b < 0) then \<bar>a\<bar> div \<bar>b\<bar> else - (\<bar>a\<bar> div \<bar>b\<bar>))"

text \<open>
  The loop \<^verbatim>\<open>while (!done)\<close> on the passes the system still answers; the state is the
  two buffers and \<open>status\<close>. \<open>None\<close>: the loop is still running when the passes end.
\<close>

fun exec_loop :: "int \<Rightarrow> poll list \<Rightarrow> string \<times> string \<times> int \<Rightarrow> (string \<times> string \<times> int) option" where
  "exec_loop timeout_ms [] st = None"
| "exec_loop timeout_ms (p # ps) (stdout_buf, stderr_buf, status) =
    (let out1 = read_into stdout_buf (read_out p);
         err1 = read_into stderr_buf (read_err p)
     in case wait_nohang p of
          Some st \<Rightarrow> Some (drain out1 (drain_out p), drain err1 (drain_err p), st)
        | None \<Rightarrow>
            if elapsed p > c_div timeout_ms 1000 then
              Some (out1, err1, (case wait_killed p of Some st \<Rightarrow> st | None \<Rightarrow> status))
            else exec_loop timeout_ms ps (out1, err1, status))"

text \<open>
  \<^verbatim>\<open>WIFEXITED\<close> and \<^verbatim>\<open>WEXITSTATUS\<close> are macros of the system's \<^verbatim>\<open>sys/wait.h\<close>, not of
  the repository; these are their Linux definitions, \<^verbatim>\<open>((status) & 0x7f) == 0\<close> and
  \<^verbatim>\<open>((status) & 0xff00) >> 8\<close>.
\<close>

definition WIFEXITED :: "int \<Rightarrow> bool" where
  "WIFEXITED status = (status AND 0x7f = 0)"

definition WEXITSTATUS :: "int \<Rightarrow> int" where
  "WEXITSTATUS status = drop_bit 8 (status AND 0xff00)"

text \<open>
  What the system answers to \<open>handle_exec\<close>: the allocations, \<^verbatim>\<open>pipe\<close> (both calls),
  \<^verbatim>\<open>fork\<close>, and the passes of the loop.
\<close>

record exec_os =
  arg_mem :: "nat \<Rightarrow> bool"
  pipes_ok :: bool
  fork_pid :: int
  stdout_buf_mem :: bool
  stderr_buf_mem :: bool
  polls :: "poll list"
  stdout_esc_mem :: bool
  stderr_esc_mem :: bool
  exec_asprintf :: bool

text \<open>
  How a call of \<open>handle_exec\<close> ends: with a response line; in the child, which never
  returns from it (\<^verbatim>\<open>execve\<close> or \<^verbatim>\<open>_exit(127)\<close>); in undefined behaviour; or not
  within the passes given.
\<close>

datatype outcome = Responds string | In_Child | Undefined fault | Still_Polling

definition exec_response :: "int \<Rightarrow> string \<Rightarrow> string \<Rightarrow> string" where
  "exec_response exit_code stdout_escaped stderr_escaped =
    ''{\"success\":true,\"data\":{\"exit_code\":'' @ print_d exit_code
    @ '',\"stdout\":\"'' @ stdout_escaped
    @ ''\",\"stderr\":\"'' @ stderr_escaped @ ''\"}}'' @ [LF]"

text \<open>The part of \<open>handle_exec\<close> before \<^verbatim>\<open>fork\<close>: \<open>Inl\<close> the response of an early return.\<close>

definition exec_argv :: "exec_os \<Rightarrow> string \<Rightarrow> string + string list" where
  "exec_argv os json =
    (case strstr json ''\"cmd\"'' of
       None \<Rightarrow> Inl (err_line ''missing cmd'')
     | Some found \<Rightarrow>
        (case strchr found CHR ''['' of
           None \<Rightarrow> Inl (err_line ''cmd must be an array'')
         | Some arr_start \<Rightarrow>
            (let argv = parse_args (arg_mem os) (tl arr_start) 0 []
             in if length argv = 0 then Inl (err_line ''empty command'') else Inr argv)))"

definition exec_timeout :: "string \<Rightarrow> int" where
  "exec_timeout json = snd (json_get_int json ''timeout'' 30000)"

text \<open>The parent after a successful \<^verbatim>\<open>fork\<close>.\<close>

definition exec_parent :: "exec_os \<Rightarrow> int \<Rightarrow> outcome" where
  "exec_parent os timeout_ms =
    (if \<not> stdout_buf_mem os \<or> \<not> stderr_buf_mem os then Responds (err_line ''out of memory'')
     else
       (case exec_loop timeout_ms (polls os) ([], [], 0) of
          None \<Rightarrow> Still_Polling
        | Some (stdout_buf, stderr_buf, status) \<Rightarrow>
           (let exit_code = (if WIFEXITED status then WEXITSTATUS status else -1) in
            case json_escape (stdout_esc_mem os) (c_str stdout_buf) of
              Inl f \<Rightarrow> Undefined f
            | Inr stdout_escaped \<Rightarrow>
               (case json_escape (stderr_esc_mem os) (c_str stderr_buf) of
                  Inl f \<Rightarrow> Undefined f
                | Inr stderr_escaped \<Rightarrow>
                    if exec_asprintf os then
                      Responds (exec_response exit_code
                        (case stdout_escaped of Some e \<Rightarrow> e | None \<Rightarrow> [])
                        (case stderr_escaped of Some e \<Rightarrow> e | None \<Rightarrow> []))
                    else Responds (err_line ''out of memory'')))))"

definition handle_exec :: "exec_os \<Rightarrow> string \<Rightarrow> outcome" where
  "handle_exec os json =
    (case exec_argv os json of
       Inl response \<Rightarrow> Responds response
     | Inr argv \<Rightarrow>
        (let timeout_ms = exec_timeout json in
         if \<not> pipes_ok os then Responds (err_line ''pipe failed'')
         else if fork_pid os < 0 then Responds (err_line ''fork failed'')
         else if fork_pid os = 0 then In_Child
         else exec_parent os timeout_ms))"

text \<open>
  What the supervisor has captured of one stream when the pass \<open>p\<close> ends the loop
  after the passes \<open>earlier\<close>: the reads of all these passes in order, each into the
  room left in the buffer, and then, when \<open>p\<close> reaped the child, the reads of the drain
  loop.
\<close>

definition captured_stream ::
    "(poll \<Rightarrow> string) \<Rightarrow> (poll \<Rightarrow> string list) \<Rightarrow> poll list \<Rightarrow> poll \<Rightarrow> string" where
  "captured_stream read_of drain_of earlier p =
    (let buf = foldl read_into [] (map read_of (earlier @ [p]))
     in if wait_nohang p = None then buf else drain buf (drain_of p))"

section \<open>\<open>handle_connection\<close>\<close>

text \<open>
  The peer's bytes as the socket delivers them: one segment is what is ready for one
  \<^verbatim>\<open>read\<close>, which returns at most the count asked for and leaves the rest of the
  segment for the next call; an empty segment is a \<^verbatim>\<open>read\<close> that returns 0, and the
  end of the list is end of file (or an error). The loop
  \<^verbatim>\<open>while (total < MAX_REQUEST_SIZE - 1)\<close> returns the buffer \<open>request[0..total)\<close> and
  what it leaves unread.
\<close>

function recv_loop :: "string list \<Rightarrow> string \<Rightarrow> string \<times> string list" where
  "recv_loop sock request =
    (if length request < MAX_REQUEST_SIZE - 1 then
       (case sock of
          [] \<Rightarrow> (request, [])
        | seg # rest \<Rightarrow>
           (let n = min (length seg) (MAX_REQUEST_SIZE - length request - 1) in
            if n \<le> 0 then (request, rest)
            else
              (let request' = request @ take n seg;
                   sock' = (if n < length seg then drop n seg # rest else rest)
               in if LF \<in> set request' then (request', sock')
                  else recv_loop sock' request')))
     else (request, sock))"
  by pat_completeness auto
termination
proof (relation "measure (\<lambda>(sock, request). MAX_REQUEST_SIZE - 1 - length request)")
  show "wf (measure (\<lambda>(sock, request). MAX_REQUEST_SIZE - 1 - length request))" by simp
next
  fix sock :: "string list" and request seg :: string and rest n request' sock'
  assume "length request < MAX_REQUEST_SIZE - 1"
    and "n = min (length seg) (MAX_REQUEST_SIZE - length request - 1)"
    and "\<not> n \<le> 0"
    and "request' = request @ take n seg"
  then have "MAX_REQUEST_SIZE - 1 - length request' < MAX_REQUEST_SIZE - 1 - length request"
    by (cases seg) (auto simp: min_def split: if_splits)
  then show "((sock', request'), sock, request)
      \<in> measure (\<lambda>(sock, request). MAX_REQUEST_SIZE - 1 - length request)"
    by simp
qed

declare recv_loop.simps [simp del]

text \<open>
  The same loop in the words of its description. The reads a socket offers to a
  reader with \<open>room\<close> bytes left, one per segment, until the room is used up or a read
  returns 0; and of a sequence of reads, those up to and including the first that
  holds a newline.
\<close>

fun reads_offered :: "string list \<Rightarrow> nat \<Rightarrow> string list" where
  "reads_offered [] room = []"
| "reads_offered (seg # rest) room =
    (if room = 0 \<or> seg = [] then []
     else take room seg # reads_offered rest (room - length (take room seg)))"

fun upto_newline :: "string list \<Rightarrow> string list" where
  "upto_newline [] = []"
| "upto_newline (piece # pieces) =
    (if LF \<in> set piece then [piece] else piece # upto_newline pieces)"

text \<open>
  The dispatch of \<open>handle_connection\<close> on the request string: an immediate response,
  or the handler it calls with its arguments. \<open>mem key\<close>: the \<^verbatim>\<open>malloc\<close> in
  \<open>json_get_string\<close> for that key succeeds.
\<close>

datatype action =
    Reply string
  | File_Read string
  | File_Write string string
  | File_Stat string
  | File_Delete string
  | Exec string

definition dispatch :: "(string \<Rightarrow> bool) \<Rightarrow> string \<Rightarrow> action" where
  "dispatch mem request =
    (case json_get_string (mem ''operation'') request ''operation'' of
       None \<Rightarrow> Reply (err_line ''missing operation'')
     | Some operation \<Rightarrow>
        if operation = ''ping'' then Reply (''{\"success\":true,\"data\":{\"pong\":true}}'' @ [LF])
        else if operation = ''file_read'' then
          (case json_get_string (mem ''path'') request ''path'' of
             Some path \<Rightarrow> File_Read path
           | None \<Rightarrow> Reply (err_line ''missing path''))
        else if operation = ''file_write'' then
          (case (json_get_string (mem ''path'') request ''path'',
                 json_get_string (mem ''content'') request ''content'') of
             (Some path, Some content) \<Rightarrow> File_Write path content
           | _ \<Rightarrow> Reply (err_line ''missing path or content''))
        else if operation = ''file_stat'' then
          (case json_get_string (mem ''path'') request ''path'' of
             Some path \<Rightarrow> File_Stat path
           | None \<Rightarrow> Reply (err_line ''missing path''))
        else if operation = ''file_delete'' then
          (case json_get_string (mem ''path'') request ''path'' of
             Some path \<Rightarrow> File_Delete path
           | None \<Rightarrow> Reply (err_line ''missing path''))
        else if operation = ''exec'' then Exec request
        else Reply (err_line ''unknown operation''))"

text \<open>
  \<open>handle_connection\<close> up to the call of the handler: \<open>None\<close> when the request buffer
  cannot be allocated (the connection is closed without a response). The request
  string is the buffer up to its first NUL (\<^verbatim>\<open>request[total] = '\0'\<close>).
\<close>

definition handle_connection :: "bool \<Rightarrow> (string \<Rightarrow> bool) \<Rightarrow> string list \<Rightarrow> action option" where
  "handle_connection request_mem mem sock =
    (if \<not> request_mem then None
     else Some (dispatch mem (c_str (fst (recv_loop sock [])))))"

section \<open>Shutdown\<close>

text \<open>
  The system calls of the main thread from the main loop on, in program order (the
  log lines, which go to the log sink, are left out), and how a sequence of calls
  ends: by returning to its caller, or in a call that does not return.
\<close>

datatype syscall =
    Close int
  | Kill int string
  | Sleep nat
  | Usleep nat
  | Waitpid_Any
  | Sync
  | Umount2 string
  | Reboot string
  | Exit int

datatype control = Returns | Halted

text \<open>
  What the system answers during shutdown: how many children
  \<^verbatim>\<open>while (waitpid(-1, NULL, WNOHANG) > 0);\<close> reaps before \<^verbatim>\<open>waitpid\<close> returns 0 or -1,
  and whether \<^verbatim>\<open>reboot\<close> fails (and returns).
\<close>

record shutdown_os =
  zombies :: nat
  reboot_fails :: bool

text \<open>
  Whether a call returns to the program: \<^verbatim>\<open>reboot\<close> returns only when it fails,
  \<^verbatim>\<open>_exit\<close> never returns, every other call of the shutdown sequence returns. A
  straight-line sequence of calls runs up to the first call that does not return.
\<close>

fun call_returns :: "shutdown_os \<Rightarrow> syscall \<Rightarrow> bool" where
  "call_returns os (Reboot how) = reboot_fails os"
| "call_returns os (Exit code) = False"
| "call_returns os call = True"

fun run :: "shutdown_os \<Rightarrow> syscall list \<Rightarrow> syscall list \<times> control" where
  "run os [] = ([], Returns)"
| "run os (call # calls) =
    (if call_returns os call
     then (case run os calls of (made, ctl) \<Rightarrow> (call # made, ctl))
     else ([call], Halted))"

text \<open>
  \<open>do_shutdown\<close> from the value of \<open>vsock_fd\<close> it finds (-1 at program start, the
  listener's descriptor once the listener thread has stored it, -1 again when that
  thread fails to bind or listen): the calls it makes, the value of \<open>vsock_fd\<close>
  afterwards, and whether control returns to its caller.
\<close>

definition do_shutdown :: "shutdown_os \<Rightarrow> bool \<Rightarrow> int \<Rightarrow> syscall list \<times> int \<times> control" where
  "do_shutdown os do_reboot vsock_fd =
    (let close_listener = (if vsock_fd \<ge> 0 then [Close vsock_fd] else []);
         vsock_fd' = (if vsock_fd \<ge> 0 then -1 else vsock_fd);
         (calls, ctl) = run os
           (close_listener
            @ [Kill (-1) ''SIGTERM'', Sleep 2, Kill (-1) ''SIGKILL'']
            @ replicate (zombies os + 1) Waitpid_Any
            @ [Sync,
               Umount2 ''/tmp'', Umount2 ''/run'', Umount2 ''/dev/pts'', Umount2 ''/dev'',
               Umount2 ''/sys'', Umount2 ''/proc'',
               Sync,
               Reboot (if do_reboot then ''RB_AUTOBOOT'' else ''RB_POWER_OFF''),
               Exit 0])
     in (calls, vsock_fd', ctl))"

text \<open>
  \<open>main\<close> from \<open>main_loop\<close> on: \<open>rounds\<close> passes of the main loop (each
  \<open>reap_zombies\<close>, which makes \<open>reaped + 1\<close> calls of \<^verbatim>\<open>waitpid\<close>, then
  \<^verbatim>\<open>usleep(100000)\<close>) before a flag is seen, then \<open>do_shutdown\<close>; the \<^verbatim>\<open>return 0\<close> after it
  runs only if \<open>do_shutdown\<close> returns.
\<close>

definition main_loop :: "nat list \<Rightarrow> syscall list" where
  "main_loop rounds = concat (map (\<lambda>reaped. replicate (reaped + 1) Waitpid_Any @ [Usleep 100000]) rounds)"

definition main_from_loop :: "nat list \<Rightarrow> shutdown_os \<Rightarrow> bool \<Rightarrow> int \<Rightarrow> syscall list \<times> control" where
  "main_from_loop rounds os reboot_requested vsock_fd =
    (case do_shutdown os reboot_requested vsock_fd of
       (calls, fd, Halted) \<Rightarrow> (main_loop rounds @ calls, Halted)
     | (calls, fd, Returns) \<Rightarrow> (main_loop rounds @ calls, Returns))"

section \<open>Properties\<close>

subsection \<open>Base64: bit-level facts\<close>
























lemma rd_append: "k < length data \<Longrightarrow> rd (pre @ data) (int (length pre) + int k) = Inr (data ! k)"
  by (simp add: rd_def nth_append nat_add_distrib)

lemma dec_loop_done: "length data \<le> i \<Longrightarrow> dec_loop data i out = Inr (Some out)"
  by (subst dec_loop.simps) simp

lemma dec_loop_list:
  "length data mod 4 = 0 \<Longrightarrow>
   dec_loop (pre @ data) (length pre) out =
     Inr (case dec_list data of None \<Rightarrow> None | Some bs \<Rightarrow> Some (out @ bs))"
proof (induction data arbitrary: pre out rule: dec_list.induct)
  case (1 c0 c1 c2 c3 r)
  let ?d = "c0 # c1 # c2 # c3 # r"
  have r: "rd (pre @ ?d) (int (length pre)) = Inr c0"
       "rd (pre @ ?d) (int (length pre) + 1) = Inr c1"
       "rd (pre @ ?d) (int (length pre) + 2) = Inr c2"
       "rd (pre @ ?d) (int (length pre) + 3) = Inr c3"
    using rd_append [of 0 ?d pre] rd_append [of 1 ?d pre] rd_append [of 2 ?d pre] rd_append [of 3 ?d pre]
    by simp_all
  have m: "length r mod 4 = 0" using "1.prems" by simp
  show ?case
  proof (cases "dec_quad c0 c1 c2 c3")
    case None
    then show ?thesis by (subst dec_loop.simps) (simp add: r)
  next
    case (Some bs)
    have ih: "dec_loop ((pre @ [c0, c1, c2, c3]) @ r) (length (pre @ [c0, c1, c2, c3])) (out @ bs)
      = Inr (case dec_list r of None \<Rightarrow> None | Some rest \<Rightarrow> Some ((out @ bs) @ rest))"
      by (rule "1.IH" [OF Some m])
    have "dec_loop (pre @ ?d) (length pre) out = dec_loop (pre @ ?d) (length pre + 4) (out @ bs)"
      by (subst dec_loop.simps) (simp add: r Some)
    also have "\<dots> = Inr (case dec_list r of None \<Rightarrow> None | Some rest \<Rightarrow> Some ((out @ bs) @ rest))"
      using ih by (simp add: numeral_eq_Suc)
    finally show ?thesis using Some by (simp split: option.splits)
  qed
qed (simp_all add: dec_loop_done)

lemma enc_quad_length: "length (enc_quad xs i) = 4"
  by (simp add: enc_quad_def Let_def)

lemma enc_list_length: "length (enc_list bs) = 4 * ((length bs + 2) div 3)"
proof (induction bs rule: enc_list.induct)
  case (4 a b c r)
  have "(length (a # b # c # r) + 2) div 3 = Suc ((length r + 2) div 3)" by simp
  then show ?case using 4 by (simp add: enc_quad_length)
qed (simp_all add: enc_quad_length)

lemma enc_list_eq_Nil: "enc_list bs = [] \<longleftrightarrow> bs = []"
  using enc_list_length [of bs] by (cases bs) auto

lemma pads_append: "length t \<ge> 2 \<Longrightarrow> pads (s @ t) = pads t"
  by (cases t rule: rev_cases; simp add: pads_def butlast_append; cases "butlast t" rule: rev_cases; auto simp: butlast_append)


lemma rd_last: "s \<noteq> [] \<Longrightarrow> rd s (int (length s) - 1) = Inr (last s)"
  by (cases s rule: rev_cases) (auto simp: rd_def nth_append nat_diff_distrib)

lemma rd_last2: "length s \<ge> 2 \<Longrightarrow> rd s (int (length s) - 2) = Inr (last (butlast s))"
  by (cases s rule: rev_cases; simp add: rd_def; cases "butlast s" rule: rev_cases; auto simp: nth_append rd_def)



lemma mod4_ge: "(n::nat) mod 4 = 0 \<Longrightarrow> n \<noteq> 0 \<Longrightarrow> 4 \<le> n"
  by (auto simp: mod_eq_0_iff_dvd elim!: dvdE)

lemma decode_size_mod4: "(n::nat) mod 4 = 0 \<Longrightarrow> BASE64_DECODE_SIZE n = 3 * (n div 4)"
  by (auto simp: mod_eq_0_iff_dvd BASE64_DECODE_SIZE_def elim!: dvdE)

lemma dec_quad_length:
  assumes "dec_quad c0 c1 c2 c3 = Some bs"
  shows "length bs + pads [c2, c3] = 3"
proof -
  obtain x y z where "bs = [x] @ (if c2 \<noteq> CHR ''='' then [y] else []) @ (if c3 \<noteq> CHR ''='' then [z] else [])"
    using assms unfolding dec_quad_def Let_def by (metis option.distinct(1) option.inject)
  then show ?thesis by (simp add: pads_def)
qed

lemma dec_list_length:
  "length data mod 4 = 0 \<Longrightarrow> data \<noteq> [] \<Longrightarrow> dec_list data = Some out \<Longrightarrow>
   length out + pads data \<le> 3 * (length data div 4)"
proof (induction data arbitrary: out rule: dec_list.induct)
  case (1 c0 c1 c2 c3 r)
  from "1.prems"(3) obtain bs rest where q: "dec_quad c0 c1 c2 c3 = Some bs"
    and rr: "dec_list r = Some rest" and out: "out = bs @ rest"
    by (auto split: option.splits)
  have m: "length r mod 4 = 0" using "1.prems"(1) by simp
  show ?case
  proof (cases "r = []")
    case True
    then have "rest = []" using rr by simp
    moreover have "pads (c0 # c1 # c2 # c3 # r) = pads [c2, c3]" using True by (simp add: pads_def)
    ultimately show ?thesis using dec_quad_length [OF q] out True by simp
  next
    case False
    then have ge: "length r \<ge> 2" using mod4_ge [OF m] by simp
    have "pads ([c0, c1, c2, c3] @ r) = pads r" by (rule pads_append [OF ge])
    then have p: "pads (c0 # c1 # c2 # c3 # r) = pads r" by simp
    have "length rest + pads r \<le> 3 * (length r div 4)"
      by (rule "1.IH" [OF q m False rr])
    moreover have "length bs \<le> 3" using dec_quad_length [OF q] by simp
    moreover have "length (c0 # c1 # c2 # c3 # r) div 4 = Suc (length r div 4)" by simp
    ultimately show ?thesis unfolding p out by simp
  qed
qed simp_all

lemma base64_decode_total:
  assumes "data \<noteq> []"
  shows "\<exists>r. base64_decode mem data = Inr r"
proof (cases "length data mod 4 = 0")
  case False
  then show ?thesis by (simp add: base64_decode_def)
next
  case m: True
  then have ge: "length data \<ge> 4" using mod4_ge [of "length data"] assms by simp
  have r1: "rd data (int (length data) - 1) = Inr (last data)" using assms by (rule rd_last)
  have r2: "rd data (int (length data) - 2) = Inr (last (butlast data))" using ge by (intro rd_last2) auto
  have l: "dec_loop data 0 [] = Inr (dec_list data)"
    using dec_loop_list [OF m, of "[]" "[]"] by (simp split: option.splits)
  show ?thesis
  proof (cases "dec_list data")
    case None
    then show ?thesis unfolding base64_decode_def Let_def r1 r2 l by simp
  next
    case (Some out)
    have "length out + pads data \<le> 3 * (length data div 4)"
      by (rule dec_list_length [OF m assms Some])
    moreover have "BASE64_DECODE_SIZE (length data) = 3 * (length data div 4)"
      using m by (rule decode_size_mod4)
    ultimately show ?thesis
      unfolding base64_decode_def Let_def r1 r2 l Some
      by (auto simp: pads_def split: if_splits)
  qed
qed



subsection \<open>The escape function\<close>

lemma escape_char_length: "length (escape_char c) \<le> 6"
  by (simp add: escape_char_def)

lemma json_escape_fits:
  "json_escape True str = Inr (Some (escape_loop str)) \<longleftrightarrow> length (escape_loop str) \<le> 2 * length str"
  by (simp add: json_escape_def Let_def mult.commute)

lemma json_escape_overflow:
  "json_escape True str = Inl Write_Out_Of_Bounds \<longleftrightarrow> 2 * length str < length (escape_loop str)"
  by (auto simp: json_escape_def Let_def mult.commute)

subsection \<open>The supervising loop\<close>

lemma read_into_length:
  "length buf \<le> MAX_RESPONSE_SIZE - 1 \<Longrightarrow> length (read_into buf chunk) \<le> MAX_RESPONSE_SIZE - 1"
  by (simp add: read_into_def)

lemma drain_length:
  "length buf \<le> MAX_RESPONSE_SIZE - 1 \<Longrightarrow> length (drain buf chunks) \<le> MAX_RESPONSE_SIZE - 1"
proof (induction chunks arbitrary: buf)
  case Nil
  then show ?case by simp
next
  case (Cons a chunks)
  show ?case
    using Cons.IH [OF read_into_length [OF Cons.prems]] Cons.prems by simp
qed

lemma exec_loop_returns:
  "\<exists>p \<in> set ps. wait_nohang p \<noteq> None \<or> c_div timeout_ms 1000 < elapsed p \<Longrightarrow>
   \<exists>r. exec_loop timeout_ms ps st = Some r"
proof (induction ps arbitrary: st)
  case Nil
  then show ?case by simp
next
  case (Cons p ps)
  obtain out err status where st: "st = (out, err, status)" by (cases st) auto
  show ?case
  proof (cases "wait_nohang p \<noteq> None \<or> c_div timeout_ms 1000 < elapsed p")
    case True
    then show ?thesis unfolding st by (auto simp: Let_def split: option.splits)
  next
    case False
    then have "\<exists>q \<in> set ps. wait_nohang q \<noteq> None \<or> c_div timeout_ms 1000 < elapsed q"
      using Cons.prems by auto
    from Cons.IH [OF this] show ?thesis
      unfolding st using False by (simp add: Let_def)
  qed
qed

lemma exec_loop_bounded:
  "exec_loop timeout_ms ps (out, err, status) = Some (out', err', status') \<Longrightarrow>
   length out \<le> MAX_RESPONSE_SIZE - 1 \<Longrightarrow> length err \<le> MAX_RESPONSE_SIZE - 1 \<Longrightarrow>
   length out' \<le> MAX_RESPONSE_SIZE - 1 \<and> length err' \<le> MAX_RESPONSE_SIZE - 1"
proof (induction ps arbitrary: out err status)
  case Nil
  then show ?case by simp
next
  case (Cons p ps)
  have b: "length (read_into out (read_out p)) \<le> MAX_RESPONSE_SIZE - 1"
    "length (read_into err (read_err p)) \<le> MAX_RESPONSE_SIZE - 1"
    by (rule read_into_length [OF Cons.prems(2)], rule read_into_length [OF Cons.prems(3)])
  show ?case
  proof (cases "wait_nohang p")
    case (Some s)
    then show ?thesis
      using Cons.prems(1) drain_length [OF b(1)] drain_length [OF b(2)] by (auto simp: Let_def)
  next
    case None
    show ?thesis
    proof (cases "c_div timeout_ms 1000 < elapsed p")
      case True
      then show ?thesis using Cons.prems(1) b None by (auto simp: Let_def)
    next
      case False
      then have "exec_loop timeout_ms ps (read_into out (read_out p), read_into err (read_err p), status)
          = Some (out', err', status')"
        using Cons.prems(1) None by (simp add: Let_def)
      from Cons.IH [OF this b] show ?thesis .
    qed
  qed
qed

lemma WEXITSTATUS_range: "0 \<le> WEXITSTATUS status \<and> WEXITSTATUS status \<le> 255"
proof -
  have lo: "0 \<le> status AND 0xff00" by simp
  have hi: "status AND 0xff00 \<le> 0xff00" by (rule AND_upper2) simp
  have "(status AND 0xff00) div 256 \<le> 0xff00 div 256"
    using hi by (rule zdiv_mono1) simp
  then show ?thesis
    unfolding WEXITSTATUS_def drop_bit_eq_div using lo by (simp add: pos_imp_zdiv_nonneg_iff)
qed

lemma exec_loop_passes:
  "\<forall>q \<in> set earlier. wait_nohang q = None \<and> elapsed q \<le> c_div timeout_ms 1000 \<Longrightarrow>
   exec_loop timeout_ms (earlier @ rest) (out, err, status) =
     exec_loop timeout_ms rest
       (foldl read_into out (map read_out earlier), foldl read_into err (map read_err earlier), status)"
proof (induction earlier arbitrary: out err)
  case Nil
  then show ?case by simp
next
  case (Cons q earlier)
  have q: "wait_nohang q = None" "\<not> c_div timeout_ms 1000 < elapsed q"
    using Cons.prems by auto
  have "exec_loop timeout_ms ((q # earlier) @ rest) (out, err, status) =
      exec_loop timeout_ms (earlier @ rest) (read_into out (read_out q), read_into err (read_err q), status)"
    using q by (simp add: Let_def)
  also have "\<dots> = exec_loop timeout_ms rest
       (foldl read_into (read_into out (read_out q)) (map read_out earlier),
        foldl read_into (read_into err (read_err q)) (map read_err earlier), status)"
    using Cons.prems by (intro Cons.IH) simp
  finally show ?case by simp
qed

lemma exec_loop_ends:
  assumes "\<forall>q \<in> set earlier. wait_nohang q = None \<and> elapsed q \<le> c_div timeout_ms 1000"
    and "wait_nohang p = Some status \<or>
         wait_nohang p = None \<and> c_div timeout_ms 1000 < elapsed p \<and> wait_killed p = Some status"
  shows "exec_loop timeout_ms (earlier @ p # later) ([], [], 0) =
     Some (captured_stream read_out drain_out earlier p, captured_stream read_err drain_err earlier p, status)"
proof -
  have "exec_loop timeout_ms (earlier @ p # later) ([], [], 0) =
      exec_loop timeout_ms (p # later)
        (foldl read_into [] (map read_out earlier), foldl read_into [] (map read_err earlier), 0)"
    using assms(1) by (rule exec_loop_passes)
  also have "\<dots> = Some (captured_stream read_out drain_out earlier p, captured_stream read_err drain_err earlier p, status)"
    using assms(2) by (auto simp: captured_stream_def Let_def)
  finally show ?thesis .
qed

lemma c_str_no_nul: "NUL \<notin> set s \<Longrightarrow> c_str s = s"
  unfolding c_str_def by (rule takeWhile_eq_all_conv [THEN iffD2]) auto

lemma json_escape_result:
  "length (escape_loop str) \<le> 2 * length str \<Longrightarrow>
   json_escape mem str = Inr (if mem then Some (escape_loop str) else None)"
  by (simp add: json_escape_def Let_def mult.commute)

lemma exec_parent_result:
  assumes "stdout_buf_mem os" and "stderr_buf_mem os"
    and "exec_loop timeout_ms (polls os) ([], [], 0) = Some (out, err, status)"
    and "NUL \<notin> set out" and "NUL \<notin> set err"
    and "length (escape_loop out) \<le> 2 * length out"
    and "length (escape_loop err) \<le> 2 * length err"
  shows "exec_parent os timeout_ms =
    (if exec_asprintf os then
       Responds (exec_response (if WIFEXITED status then WEXITSTATUS status else -1)
         (if stdout_esc_mem os then escape_loop out else [])
         (if stderr_esc_mem os then escape_loop err else []))
     else Responds (err_line ''out of memory''))"
  using assms by (simp add: exec_parent_def c_str_no_nul json_escape_result Let_def)

subsection \<open>The handlers\<close>

lemma handle_exec_eval:
  assumes "exec_argv os json = Inr argv" and "pipes_ok os" and "0 < fork_pid os"
    and "stdout_buf_mem os" and "stderr_buf_mem os"
    and "exec_loop (exec_timeout json) (polls os) ([], [], 0) = Some (out, err, status)"
    and "json_escape (stdout_esc_mem os) (c_str out) = Inr eo"
    and "json_escape (stderr_esc_mem os) (c_str err) = Inr ee"
    and "exec_asprintf os"
  shows "handle_exec os json =
    Responds (exec_response (if WIFEXITED status then WEXITSTATUS status else -1)
      (case eo of Some e \<Rightarrow> e | None \<Rightarrow> []) (case ee of Some e \<Rightarrow> e | None \<Rightarrow> []))"
  using assms by (simp add: handle_exec_def exec_parent_def Let_def)

lemma get_string_switch_escapes:
  "get_string_switch CHR ''n'' = LF" "get_string_switch CHR ''r'' = CR"
  "get_string_switch CHR ''t'' = TAB" "get_string_switch BS = BS" "get_string_switch DQ = DQ"
  "c \<notin> {CHR ''n'', CHR ''r'', CHR ''t''} \<Longrightarrow> get_string_switch c = c"
  by (auto simp: get_string_switch_def)

lemma exec_arg_switch_escapes:
  "exec_arg_switch CHR ''n'' = LF" "exec_arg_switch CHR ''t'' = TAB"
  "c \<notin> {CHR ''n'', CHR ''t''} \<Longrightarrow> exec_arg_switch c = c"
  by (auto simp: exec_arg_switch_def)

lemma escape_char_high: "128 \<le> (of_char c :: nat) \<Longrightarrow> escape_char c = [c]"
  by (auto simp: escape_char_def)









subsection \<open>The read loop of the connection handler\<close>

lemma recv_loop_length:
  "length request \<le> MAX_REQUEST_SIZE - 1 \<Longrightarrow>
   length (fst (recv_loop sock request)) \<le> MAX_REQUEST_SIZE - 1"
proof (induction sock request rule: recv_loop.induct)
  case (1 sock request)
  show ?case
  proof (cases "length request < MAX_REQUEST_SIZE - 1")
    case False
    then show ?thesis using "1.prems" by (subst recv_loop.simps) simp
  next
    case less: True
    show ?thesis
    proof (cases sock)
      case Nil
      then show ?thesis using "1.prems" less by (subst recv_loop.simps) simp
    next
      case (Cons seg rest)
      define n where "n = min (length seg) (MAX_REQUEST_SIZE - length request - 1)"
      define request' where "request' = request @ take n seg"
      define sock' where "sock' = (if n < length seg then drop n seg # rest else rest)"
      have b: "length request' \<le> MAX_REQUEST_SIZE - 1"
        using less by (simp add: request'_def n_def)
      show ?thesis
      proof (cases "n \<le> 0")
        case True
        then show ?thesis
          using "1.prems" less Cons by (subst recv_loop.simps) (simp add: n_def Let_def)
      next
        case pos: False
        show ?thesis
        proof (cases "LF \<in> set request'")
          case True
          have "recv_loop sock request = (request', sock')"
            using less Cons pos True
            by (subst recv_loop.simps) (simp add: n_def request'_def sock'_def Let_def)
          then show ?thesis using b by simp
        next
          case False
          have "recv_loop sock request = recv_loop sock' request'"
            using less Cons pos False
            by (subst recv_loop.simps) (simp add: n_def request'_def sock'_def Let_def)
          moreover have "length (fst (recv_loop sock' request')) \<le> MAX_REQUEST_SIZE - 1"
            using "1.IH" [OF less Cons n_def pos request'_def sock'_def False b] .
          ultimately show ?thesis by simp
        qed
      qed
    qed
  qed
qed

lemma recv_loop_full:
  "\<not> length request < MAX_REQUEST_SIZE - 1 \<Longrightarrow> recv_loop sock request = (request, sock)"
  by (subst recv_loop.simps) simp

lemma recv_loop_eof:
  "recv_loop [] request = (request, [])"
  by (subst recv_loop.simps) simp

lemma recv_loop_zero:
  "length request < MAX_REQUEST_SIZE - 1 \<Longrightarrow> recv_loop ([] # rest) request = (request, rest)"
  by (subst recv_loop.simps) simp

lemma recv_loop_step:
  assumes "length request < MAX_REQUEST_SIZE - 1" and "seg \<noteq> []"
    and "n = min (length seg) (MAX_REQUEST_SIZE - length request - 1)"
  shows "recv_loop (seg # rest) request =
    (if LF \<in> set (request @ take n seg)
     then (request @ take n seg, if n < length seg then drop n seg # rest else rest)
     else recv_loop (if n < length seg then drop n seg # rest else rest) (request @ take n seg))"
proof -
  have "\<not> n \<le> 0" using assms by (cases seg) (auto simp: min_def)
  then show ?thesis
    using assms by (subst recv_loop.simps) (simp add: Let_def)
qed

lemma recv_loop_stream:
  "fst (recv_loop sock request) @ concat (snd (recv_loop sock request)) = request @ concat sock"
proof (induction sock request rule: recv_loop.induct)
  case (1 sock request)
  show ?case
  proof (cases "length request < MAX_REQUEST_SIZE - 1")
    case False
    then show ?thesis by (simp add: recv_loop_full)
  next
    case less: True
    show ?thesis
    proof (cases sock)
      case Nil
      then show ?thesis by (simp add: recv_loop_eof)
    next
      case (Cons seg rest)
      define n where "n = min (length seg) (MAX_REQUEST_SIZE - length request - 1)"
      define request' where "request' = request @ take n seg"
      define sock' where "sock' = (if n < length seg then drop n seg # rest else rest)"
      have c: "request' @ concat sock' = request @ concat sock"
        unfolding request'_def sock'_def Cons by (simp add: n_def min_def)
      show ?thesis
      proof (cases "seg = []")
        case True
        then show ?thesis using less Cons by (simp add: recv_loop_zero)
      next
        case ne: False
        then have pos: "\<not> n \<le> 0" using less by (cases seg) (auto simp: n_def min_def)
        show ?thesis
        proof (cases "LF \<in> set request'")
          case True
          then have "recv_loop sock request = (request', sock')"
            unfolding Cons request'_def sock'_def
            by (subst recv_loop_step [OF less ne n_def]) simp
          then show ?thesis using c by simp
        next
          case False
          then have "recv_loop sock request = recv_loop sock' request'"
            unfolding Cons request'_def sock'_def
            by (subst recv_loop_step [OF less ne n_def]) simp
          moreover have "fst (recv_loop sock' request') @ concat (snd (recv_loop sock' request'))
              = request' @ concat sock'"
            using "1.IH" [OF less Cons n_def pos request'_def sock'_def False] .
          ultimately show ?thesis using c by simp
        qed
      qed
    qed
  qed
qed

lemma recv_loop_one_segment:
  assumes "length seg \<le> MAX_REQUEST_SIZE - 1" and "LF \<in> set seg"
  shows "recv_loop (seg # rest) [] = (seg, rest)"
proof -
  have ne: "seg \<noteq> []" using assms(2) by auto
  have l: "length ([] :: string) < MAX_REQUEST_SIZE - 1" by (simp add: MAX_REQUEST_SIZE_def)
  have n: "length seg = min (length seg) (MAX_REQUEST_SIZE - length ([] :: string) - 1)"
    using assms(1) by simp
  show ?thesis
    using assms(2) by (subst recv_loop_step [OF l ne n]) simp
qed

lemma recv_loop_truncates:
  assumes "MAX_REQUEST_SIZE - 1 < length seg" and "LF \<notin> set (take (MAX_REQUEST_SIZE - 1) seg)"
  shows "recv_loop (seg # rest) [] =
    (take (MAX_REQUEST_SIZE - 1) seg, drop (MAX_REQUEST_SIZE - 1) seg # rest)"
proof -
  have ne: "seg \<noteq> []" using assms(1) by auto
  have l: "length ([] :: string) < MAX_REQUEST_SIZE - 1" by (simp add: MAX_REQUEST_SIZE_def)
  have n: "MAX_REQUEST_SIZE - 1 = min (length seg) (MAX_REQUEST_SIZE - length ([] :: string) - 1)"
    using assms(1) by simp
  have "recv_loop (seg # rest) [] =
      recv_loop (drop (MAX_REQUEST_SIZE - 1) seg # rest) (take (MAX_REQUEST_SIZE - 1) seg)"
    using assms by (subst recv_loop_step [OF l ne n]) simp
  also have "\<dots> = (take (MAX_REQUEST_SIZE - 1) seg, drop (MAX_REQUEST_SIZE - 1) seg # rest)"
    using assms(1) by (intro recv_loop_full) simp
  finally show ?thesis .
qed

lemma recv_loop_reads:
  "LF \<notin> set request \<Longrightarrow> length request \<le> MAX_REQUEST_SIZE - 1 \<Longrightarrow>
   fst (recv_loop sock request) =
     request @ concat (upto_newline (reads_offered sock (MAX_REQUEST_SIZE - 1 - length request)))"
proof (induction sock arbitrary: request)
  case Nil
  then show ?case by (simp add: recv_loop_eof)
next
  case (Cons seg rest)
  show ?case
  proof (cases "length request < MAX_REQUEST_SIZE - 1")
    case False
    then show ?thesis using Cons.prems by (simp add: recv_loop_full)
  next
    case less: True
    show ?thesis
    proof (cases "seg = []")
      case True
      then show ?thesis using less by (simp add: recv_loop_zero)
    next
      case ne: False
      define room where "room = MAX_REQUEST_SIZE - 1 - length request"
      define n where "n = min (length seg) (MAX_REQUEST_SIZE - length request - 1)"
      have room: "0 < room" using less by (simp add: room_def)
      have tk: "take n seg = take room seg" by (simp add: n_def room_def min_def)
      have ln: "length (take room seg) = n" by (simp add: n_def room_def min_def)
      have off: "reads_offered (seg # rest) room = take room seg # reads_offered rest (room - n)"
        using ne room ln by simp
      note step = recv_loop_step [OF less ne n_def, of rest]
      show ?thesis
      proof (cases "LF \<in> set (take room seg)")
        case True
        then have "fst (recv_loop (seg # rest) request) = request @ take room seg"
          unfolding step tk by simp
        then show ?thesis
          using True unfolding room_def [symmetric] off by simp
      next
        case nl: False
        then have nl': "LF \<notin> set (request @ take room seg)" using Cons.prems(1) by simp
        have r: "recv_loop (seg # rest) request =
            recv_loop (if n < length seg then drop n seg # rest else rest) (request @ take room seg)"
          unfolding step tk using nl' by simp
        show ?thesis
        proof (cases "n < length seg")
          case True
          then have full: "n = room" by (auto simp: n_def room_def min_def split: if_splits)
          then have "\<not> length (request @ take room seg) < MAX_REQUEST_SIZE - 1"
            using ln less by (simp add: room_def)
          then have "recv_loop (drop n seg # rest) (request @ take room seg)
              = (request @ take room seg, drop n seg # rest)"
            by (rule recv_loop_full)
          moreover have "reads_offered rest (room - n) = []"
            unfolding full by (cases rest) simp_all
          ultimately show ?thesis
            using True r nl unfolding room_def [symmetric] off by simp
        next
          case False
          then have le: "length seg \<le> room" and n: "n = length seg"
            by (auto simp: n_def room_def min_def split: if_splits)
          have b: "length (request @ take room seg) \<le> MAX_REQUEST_SIZE - 1"
            using le less by (simp add: room_def)
          have "fst (recv_loop rest (request @ take room seg)) =
              (request @ take room seg)
              @ concat (upto_newline (reads_offered rest (MAX_REQUEST_SIZE - 1 - length (request @ take room seg))))"
            by (rule Cons.IH [OF nl' b])
          moreover have "MAX_REQUEST_SIZE - 1 - length (request @ take room seg) = room - n"
            using le n by (simp add: room_def)
          ultimately show ?thesis
            using False r nl unfolding room_def [symmetric] off by simp
        qed
      qed
    qed
  qed
qed

lemma reads_offered_concat:
  "\<forall>seg \<in> set sock. seg \<noteq> [] \<Longrightarrow> concat (reads_offered sock room) = take room (concat sock)"
proof (induction sock arbitrary: room)
  case Nil
  then show ?case by simp
next
  case (Cons seg rest)
  have "concat (reads_offered rest (room - length (take room seg)))
      = take (room - length (take room seg)) (concat rest)"
    using Cons.prems by (intro Cons.IH) simp
  then show ?case
    using Cons.prems by (auto simp: min_def)
qed

lemma upto_newline_all: "LF \<notin> set (concat pieces) \<Longrightarrow> upto_newline pieces = pieces"
  by (induction pieces) auto

lemma upto_newline_prefix: "prefix (concat (upto_newline pieces)) (concat pieces)"
  by (induction pieces) auto

lemma upto_newline_has: "LF \<in> set (concat pieces) \<Longrightarrow> LF \<in> set (concat (upto_newline pieces))"
  by (induction pieces) auto

lemma first_line_prefix:
  assumes "prefix x s" and "LF \<in> set x"
  shows "prefix (takeWhile (\<lambda>c. c \<noteq> LF) s @ [LF]) x"
proof -
  obtain y where s: "s = x @ y" using assms(1) by (auto simp: prefix_def)
  have t: "takeWhile (\<lambda>c. c \<noteq> LF) s = takeWhile (\<lambda>c. c \<noteq> LF) x"
    unfolding s using assms(2) by (intro takeWhile_append1 [of LF]) auto
  have d: "dropWhile (\<lambda>c. c \<noteq> LF) x \<noteq> []" using assms(2) by (simp add: dropWhile_eq_Nil_conv)
  then have "hd (dropWhile (\<lambda>c. c \<noteq> LF) x) = LF"
    using hd_dropWhile [of "\<lambda>c. c \<noteq> LF" x] by simp
  then obtain z where "dropWhile (\<lambda>c. c \<noteq> LF) x = LF # z"
    using d by (cases "dropWhile (\<lambda>c. c \<noteq> LF) x") auto
  then have "x = (takeWhile (\<lambda>c. c \<noteq> LF) x @ [LF]) @ z"
    using takeWhile_dropWhile_id [of "\<lambda>c. c \<noteq> LF" x] by simp
  then show ?thesis unfolding t by (metis prefixI)
qed

lemma max_request: "MAX_REQUEST_SIZE - 1 = 134217727"
  by (simp add: MAX_REQUEST_SIZE_def)

lemma dispatch_ping:
  "dispatch (\<lambda>k. True) (''{\"operation\":\"ping\"}'' @ tail)
    = Reply (''{\"success\":true,\"data\":{\"pong\":true}}'' @ [LF])"
  by (simp add: dispatch_def json_get_string_def search_key_def skip_sep_def get_string_switch_def)

subsection \<open>Shutdown\<close>

lemma run_returning:
  "\<forall>c \<in> set pre. call_returns os c \<Longrightarrow>
   run os (pre @ rest) = (pre @ fst (run os rest), snd (run os rest))"
  by (induction pre) (auto split: prod.splits)

lemma do_shutdown_calls:
  "do_shutdown os do_reboot vsock_fd =
     ((if vsock_fd \<ge> 0 then [Close vsock_fd] else [])
      @ [Kill (-1) ''SIGTERM'', Sleep 2, Kill (-1) ''SIGKILL'']
      @ replicate (zombies os + 1) Waitpid_Any
      @ [Sync, Umount2 ''/tmp'', Umount2 ''/run'', Umount2 ''/dev/pts'', Umount2 ''/dev'',
         Umount2 ''/sys'', Umount2 ''/proc'', Sync,
         Reboot (if do_reboot then ''RB_AUTOBOOT'' else ''RB_POWER_OFF'')]
      @ (if reboot_fails os then [Exit 0] else []),
      if vsock_fd \<ge> 0 then -1 else vsock_fd,
      Halted)"
proof -
  let ?tail = "[Sync, Umount2 ''/tmp'', Umount2 ''/run'', Umount2 ''/dev/pts'', Umount2 ''/dev'',
         Umount2 ''/sys'', Umount2 ''/proc'', Sync,
         Reboot (if do_reboot then ''RB_AUTOBOOT'' else ''RB_POWER_OFF''), Exit 0]"
  let ?head = "(if vsock_fd \<ge> 0 then [Close vsock_fd] else [])
      @ [Kill (-1) ''SIGTERM'', Sleep 2, Kill (-1) ''SIGKILL''] @ replicate (zombies os + 1) Waitpid_Any"
  have t: "run os ?tail =
     ([Sync, Umount2 ''/tmp'', Umount2 ''/run'', Umount2 ''/dev/pts'', Umount2 ''/dev'',
         Umount2 ''/sys'', Umount2 ''/proc'', Sync,
         Reboot (if do_reboot then ''RB_AUTOBOOT'' else ''RB_POWER_OFF'')]
      @ (if reboot_fails os then [Exit 0] else []), Halted)"
    by simp
  have h: "\<forall>c \<in> set ?head. call_returns os c" by auto
  have "run os (?head @ ?tail) = (?head @ fst (run os ?tail), snd (run os ?tail))"
    using h by (rule run_returning)
  then show ?thesis
    unfolding do_shutdown_def Let_def t by simp
qed

lemma main_loop_calls: "set (main_loop rounds) \<subseteq> {Waitpid_Any, Usleep 100000}"
  by (auto simp: main_loop_def)

section \<open>The claims\<close>



text \<open>
  Claim C10 (the decoder is total on every input whose length is a multiple of 4, the
  empty string included, and never reads outside its input). On the empty string the
  decoder's inspection of the padding reads index \<open>-1\<close>: a read out of bounds, whatever
  the allocator does. On every non-empty input it returns (\<open>base64_decode_total\<close>).
\<close>

theorem C10_decode_empty_reads_out_of_bounds:
  "base64_decode mem [] = Inl Read_Out_Of_Bounds"
  by (simp add: base64_decode_def rd_def)

text \<open>
  Claim C1 (once the child is forked, exec never answers with an error line). The
  claim fails where the code has an explicit guard: after \<^verbatim>\<open>fork\<close> the parent
  allocates the two output buffers, and when either \<^verbatim>\<open>malloc\<close> fails it kills the
  child and returns the error line \<open>out of memory\<close>; it returns the same line when the
  response cannot be allocated. As amended, for a request whose child has been
  forked: if an output buffer cannot be allocated the response is the error line
  \<open>out of memory\<close>. Otherwise let \<open>p\<close> be the first pass of the loop in which the
  child is reaped or the deadline has passed, let that pass store a wait status, and
  let the captured streams (all reads up to that pass, and the drained rest when the
  child was reaped) hold no NUL byte and have escaped forms that fit the buffers
  \<open>json_escape\<close> allocates: then the response is the error line \<open>out of memory\<close> when
  it cannot be allocated, and else the success line with the exit code (the exit
  status of a normal exit, else -1) and the escaped captured streams, each empty when
  its escaped copy cannot be allocated.
\<close>

theorem C1_exec_after_fork:
  assumes "exec_argv os json = Inr argv" and "pipes_ok os" and "0 < fork_pid os"
  shows "(\<not> stdout_buf_mem os \<or> \<not> stderr_buf_mem os \<longrightarrow>
            handle_exec os json = Responds (err_line ''out of memory''))
    \<and> (stdout_buf_mem os \<and> stderr_buf_mem os
        \<and> polls os = earlier @ p # later
        \<and> (\<forall>q \<in> set earlier. wait_nohang q = None \<and> elapsed q \<le> c_div (exec_timeout json) 1000)
        \<and> (wait_nohang p = Some status \<or>
            wait_nohang p = None \<and> c_div (exec_timeout json) 1000 < elapsed p
              \<and> wait_killed p = Some status)
        \<and> NUL \<notin> set (captured_stream read_out drain_out earlier p)
        \<and> NUL \<notin> set (captured_stream read_err drain_err earlier p)
        \<and> length (escape_loop (captured_stream read_out drain_out earlier p))
             \<le> 2 * length (captured_stream read_out drain_out earlier p)
        \<and> length (escape_loop (captured_stream read_err drain_err earlier p))
             \<le> 2 * length (captured_stream read_err drain_err earlier p)
       \<longrightarrow> handle_exec os json =
             (if exec_asprintf os then
                Responds (exec_response (if WIFEXITED status then WEXITSTATUS status else -1)
                  (if stdout_esc_mem os
                   then escape_loop (captured_stream read_out drain_out earlier p) else [])
                  (if stderr_esc_mem os
                   then escape_loop (captured_stream read_err drain_err earlier p) else []))
              else Responds (err_line ''out of memory'')))"
proof (intro conjI impI)
  have h: "handle_exec os json = exec_parent os (exec_timeout json)"
    using assms by (simp add: handle_exec_def Let_def)
  show "handle_exec os json = Responds (err_line ''out of memory'')"
    if "\<not> stdout_buf_mem os \<or> \<not> stderr_buf_mem os"
    unfolding h using that by (auto simp: exec_parent_def)
  let ?out = "captured_stream read_out drain_out earlier p"
  let ?err = "captured_stream read_err drain_err earlier p"
  assume a: "stdout_buf_mem os \<and> stderr_buf_mem os
        \<and> polls os = earlier @ p # later
        \<and> (\<forall>q \<in> set earlier. wait_nohang q = None \<and> elapsed q \<le> c_div (exec_timeout json) 1000)
        \<and> (wait_nohang p = Some status \<or>
            wait_nohang p = None \<and> c_div (exec_timeout json) 1000 < elapsed p
              \<and> wait_killed p = Some status)
        \<and> NUL \<notin> set ?out \<and> NUL \<notin> set ?err
        \<and> length (escape_loop ?out) \<le> 2 * length ?out
        \<and> length (escape_loop ?err) \<le> 2 * length ?err"
  have l: "exec_loop (exec_timeout json) (polls os) ([], [], 0) = Some (?out, ?err, status)"
    using a exec_loop_ends [of earlier "exec_timeout json" p status later] by simp
  show "handle_exec os json =
             (if exec_asprintf os then
                Responds (exec_response (if WIFEXITED status then WEXITSTATUS status else -1)
                  (if stdout_esc_mem os then escape_loop ?out else [])
                  (if stderr_esc_mem os then escape_loop ?err else []))
              else Responds (err_line ''out of memory''))"
    unfolding h using a by (intro exec_parent_result [OF _ _ l]) simp_all
qed

theorem C1_exec_after_fork_witness:
  "handle_exec
     \<lparr>arg_mem = (\<lambda>k. True), pipes_ok = True, fork_pid = 7,
      stdout_buf_mem = True, stderr_buf_mem = True,
      polls = [\<lparr>read_out = ''h'', read_err = [], wait_nohang = None,
                drain_out = [], drain_err = [], elapsed = 0, wait_killed = None\<rparr>,
               \<lparr>read_out = ''i'', read_err = ''e'', wait_nohang = Some 768,
                drain_out = [[LF]], drain_err = [], elapsed = 1, wait_killed = None\<rparr>],
      stdout_esc_mem = True, stderr_esc_mem = True, exec_asprintf = True\<rparr>
     ''{\"operation\":\"exec\",\"cmd\":[\"/bin/sh\",\"-c\",\"echo hi; exit 3\"]}''
   = Responds (''{\"success\":true,\"data\":{\"exit_code\":3,\"stdout\":\"hi'' @ [BS] @ ''n\",\"stderr\":\"e\"}}'' @ [LF])
   \<and> handle_exec
     \<lparr>arg_mem = (\<lambda>k. True), pipes_ok = True, fork_pid = 7,
      stdout_buf_mem = True, stderr_buf_mem = False, polls = [],
      stdout_esc_mem = True, stderr_esc_mem = True, exec_asprintf = True\<rparr>
     ''{\"operation\":\"exec\",\"cmd\":[\"/bin/sh\",\"-c\",\"echo hi; exit 3\"]}''
   = Responds (''{\"success\":false,\"error\":\"out of memory\"}'' @ [LF])"
proof -
  let ?q = "\<lparr>read_out = ''h'', read_err = [], wait_nohang = None,
                drain_out = [], drain_err = [], elapsed = 0, wait_killed = None\<rparr>"
  let ?p = "\<lparr>read_out = ''i'', read_err = ''e'', wait_nohang = Some 768,
                drain_out = [[LF]], drain_err = [], elapsed = 1, wait_killed = None\<rparr>"
  let ?os = "\<lparr>arg_mem = (\<lambda>k. True), pipes_ok = True, fork_pid = 7,
      stdout_buf_mem = True, stderr_buf_mem = True, polls = [?q, ?p],
      stdout_esc_mem = True, stderr_esc_mem = True, exec_asprintf = True\<rparr>"
  let ?os2 = "\<lparr>arg_mem = (\<lambda>k. True), pipes_ok = True, fork_pid = 7,
      stdout_buf_mem = True, stderr_buf_mem = False, polls = [],
      stdout_esc_mem = True, stderr_esc_mem = True, exec_asprintf = True\<rparr>"
  let ?json = "''{\"operation\":\"exec\",\"cmd\":[\"/bin/sh\",\"-c\",\"echo hi; exit 3\"]}''"
  have a: "exec_argv ?os ?json = Inr [''/bin/sh'', ''-c'', ''echo hi; exit 3'']" by code_simp
  have a2: "exec_argv ?os2 ?json = Inr [''/bin/sh'', ''-c'', ''echo hi; exit 3'']" by code_simp
  have t: "exec_timeout ?json = 30000" by code_simp
  have d: "c_div 30000 1000 = 30" by (simp add: c_div_def)
  have o: "captured_stream read_out drain_out [?q] ?p = ''hi'' @ [LF]"
    by (simp add: captured_stream_def read_into_def MAX_RESPONSE_SIZE_def)
  have e: "captured_stream read_err drain_err [?q] ?p = ''e''"
    by (simp add: captured_stream_def read_into_def MAX_RESPONSE_SIZE_def)
  have f: "escape_loop (''hi'' @ [LF]) = ''hi'' @ [BS] @ ''n''" "escape_loop ''e'' = ''e''"
    by code_simp+
  have x: "WIFEXITED 768" "WEXITSTATUS 768 = 3"
    by (simp_all add: WIFEXITED_def WEXITSTATUS_def drop_bit_eq_div)
  have r: "exec_response 3 (''hi'' @ [BS] @ ''n'') ''e''
     = ''{\"success\":true,\"data\":{\"exit_code\":3,\"stdout\":\"hi'' @ [BS] @ ''n\",\"stderr\":\"e\"}}'' @ [LF]"
    by code_simp
  have hyp: "stdout_buf_mem ?os \<and> stderr_buf_mem ?os
        \<and> polls ?os = [?q] @ ?p # []
        \<and> (\<forall>q \<in> set [?q]. wait_nohang q = None \<and> elapsed q \<le> c_div (exec_timeout ?json) 1000)
        \<and> (wait_nohang ?p = Some 768 \<or>
            wait_nohang ?p = None \<and> c_div (exec_timeout ?json) 1000 < elapsed ?p
              \<and> wait_killed ?p = Some 768)
        \<and> NUL \<notin> set (captured_stream read_out drain_out [?q] ?p)
        \<and> NUL \<notin> set (captured_stream read_err drain_err [?q] ?p)
        \<and> length (escape_loop (captured_stream read_out drain_out [?q] ?p))
             \<le> 2 * length (captured_stream read_out drain_out [?q] ?p)
        \<and> length (escape_loop (captured_stream read_err drain_err [?q] ?p))
             \<le> 2 * length (captured_stream read_err drain_err [?q] ?p)"
    unfolding o e f t d by simp
  have "handle_exec ?os ?json =
             (if exec_asprintf ?os then
                Responds (exec_response (if WIFEXITED 768 then WEXITSTATUS 768 else -1)
                  (if stdout_esc_mem ?os
                   then escape_loop (captured_stream read_out drain_out [?q] ?p) else [])
                  (if stderr_esc_mem ?os
                   then escape_loop (captured_stream read_err drain_err [?q] ?p) else []))
              else Responds (err_line ''out of memory''))"
    using C1_exec_after_fork [of ?os ?json _ "[?q]" ?p "[]" 768, OF a] hyp by simp
  then have r1: "handle_exec ?os ?json
      = Responds (''{\"success\":true,\"data\":{\"exit_code\":3,\"stdout\":\"hi'' @ [BS] @ ''n\",\"stderr\":\"e\"}}'' @ [LF])"
    unfolding o e f using x r by simp
  have "handle_exec ?os2 ?json = Responds (err_line ''out of memory'')"
    using C1_exec_after_fork [of ?os2 ?json, OF a2] by simp
  then have r2: "handle_exec ?os2 ?json = Responds (''{\"success\":false,\"error\":\"out of memory\"}'' @ [LF])"
    by (simp add: err_line_def)
  show ?thesis using r1 r2 by blast
qed

text \<open>
  Against claim C1 as stated: the child is forked, the first output buffer cannot be
  allocated, and the response is an error line.
\<close>

theorem C1_out_of_memory_after_fork:
  "handle_exec
     \<lparr>arg_mem = (\<lambda>k. True), pipes_ok = True, fork_pid = 7,
      stdout_buf_mem = False, stderr_buf_mem = True,
      polls = [\<lparr>read_out = ''hi'' @ [LF], read_err = [], wait_nohang = Some 0,
                drain_out = [], drain_err = [], elapsed = 0, wait_killed = None\<rparr>],
      stdout_esc_mem = True, stderr_esc_mem = True, exec_asprintf = True\<rparr>
     ''{\"operation\":\"exec\",\"cmd\":[\"/bin/echo\",\"hi\"]}''
   = Responds (''{\"success\":false,\"error\":\"out of memory\"}'' @ [LF])"
proof -
  let ?os = "\<lparr>arg_mem = (\<lambda>k. True), pipes_ok = True, fork_pid = 7,
      stdout_buf_mem = False, stderr_buf_mem = True,
      polls = [\<lparr>read_out = ''hi'' @ [LF], read_err = [], wait_nohang = Some 0,
                drain_out = [], drain_err = [], elapsed = 0, wait_killed = None\<rparr>],
      stdout_esc_mem = True, stderr_esc_mem = True, exec_asprintf = True\<rparr>"
  let ?json = "''{\"operation\":\"exec\",\"cmd\":[\"/bin/echo\",\"hi\"]}''"
  have a: "exec_argv ?os ?json = Inr [''/bin/echo'', ''hi'']"
    by code_simp
  have "handle_exec ?os ?json = Responds (err_line ''out of memory'')"
    unfolding handle_exec_def a by (simp add: exec_parent_def)
  then show ?thesis by (simp add: err_line_def)
qed

text \<open>
  Claim C4 (the bytes read from the pipes are reproduced exactly in the response, NUL
  bytes and bytes from 0x80 on included). The supervisor counts the bytes it reads
  (\<open>stdout_len\<close>), but hands the buffer to \<open>json_escape\<close> as a C string, which measures it
  with \<^verbatim>\<open>strlen\<close>: everything from the first NUL byte on is dropped. A child that writes
  the three bytes \<open>a\<close>, NUL, \<open>b\<close> gets the response of a child that writes \<open>a\<close>. (Bytes from
  0x80 on are copied as they are, \<open>escape_char_high\<close>.)
\<close>

theorem C4_exec_output_cut_at_nul:
  "handle_exec
     \<lparr>arg_mem = (\<lambda>k. True), pipes_ok = True, fork_pid = 7,
      stdout_buf_mem = True, stderr_buf_mem = True,
      polls = [\<lparr>read_out = ''a'' @ [NUL] @ ''b'', read_err = [], wait_nohang = Some 0,
                drain_out = [], drain_err = [], elapsed = 0, wait_killed = None\<rparr>],
      stdout_esc_mem = True, stderr_esc_mem = True, exec_asprintf = True\<rparr>
     ''{\"operation\":\"exec\",\"cmd\":[\"/bin/cat\",\"/tmp/data.bin\"]}''
   = Responds (''{\"success\":true,\"data\":{\"exit_code\":0,\"stdout\":\"a\",\"stderr\":\"\"}}'' @ [LF])"
proof -
  let ?p = "\<lparr>read_out = ''a'' @ [NUL] @ ''b'', read_err = [], wait_nohang = Some 0,
                drain_out = [], drain_err = [], elapsed = 0, wait_killed = None\<rparr>"
  let ?os = "\<lparr>arg_mem = (\<lambda>k. True), pipes_ok = True, fork_pid = 7,
      stdout_buf_mem = True, stderr_buf_mem = True, polls = [?p],
      stdout_esc_mem = True, stderr_esc_mem = True, exec_asprintf = True\<rparr>"
  let ?json = "''{\"operation\":\"exec\",\"cmd\":[\"/bin/cat\",\"/tmp/data.bin\"]}''"
  have a: "exec_argv ?os ?json = Inr [''/bin/cat'', ''/tmp/data.bin'']"
    by code_simp
  have t: "exec_timeout ?json = 30000" by code_simp
  have l: "exec_loop (exec_timeout ?json) (polls ?os) ([], [], 0) = Some (''a'' @ [NUL] @ ''b'', [], 0)"
    unfolding t by (simp add: read_into_def MAX_RESPONSE_SIZE_def)
  have e: "json_escape (stdout_esc_mem ?os) (c_str (''a'' @ [NUL] @ ''b'')) = Inr (Some ''a'')"
    "json_escape (stderr_esc_mem ?os) (c_str []) = Inr (Some [])"
    by code_simp+
  have r: "exec_response (if WIFEXITED 0 then WEXITSTATUS 0 else -1) ''a'' []
     = ''{\"success\":true,\"data\":{\"exit_code\":0,\"stdout\":\"a\",\"stderr\":\"\"}}'' @ [LF]"
    by code_simp
  show ?thesis
    using handle_exec_eval [of ?os ?json, OF a _ _ _ _ l e] r by simp
qed

text \<open>
  Claim C5 (every quoted string field, each element of the exec \<open>cmd\<close> array included,
  decodes the escapes \<open>\\n\<close>, \<open>\\r\<close>, \<open>\\t\<close>, backslash and quote). \<open>json_get_string\<close> does
  (\<open>get_string_switch_escapes\<close>); the copy loop of \<open>handle_exec\<close> has a \<^verbatim>\<open>switch\<close> of its own
  with the cases \<open>n\<close> and \<open>t\<close> only, so that in an element of \<open>cmd\<close> the escape \<open>\\r\<close> gives
  the letter \<open>r\<close>, where the same wire form in the \<open>path\<close> field gives a carriage return.
\<close>

theorem C5_cmd_element_backslash_r:
  "exec_argv
     \<lparr>arg_mem = (\<lambda>k. True), pipes_ok = True, fork_pid = 7,
      stdout_buf_mem = True, stderr_buf_mem = True, polls = [],
      stdout_esc_mem = True, stderr_esc_mem = True, exec_asprintf = True\<rparr>
     (''{\"operation\":\"exec\",\"cmd\":[\"/bin/echo\",\"a'' @ [BS] @ ''rb\"]}'')
     = Inr [''/bin/echo'', ''arb'']
   \<and> json_get_string True
       (''{\"operation\":\"file_stat\",\"path\":\"a'' @ [BS] @ ''rb\"}'') ''path''
     = Some [CHR ''a'', CR, CHR ''b'']"
  by code_simp

text \<open>
  Claim C6 (every string field of a response is escaped; the path echoed by
  \<open>file_stat\<close> in particular). \<open>handle_file_stat\<close> prints the path with \<^verbatim>\<open>%s\<close>, not through
  \<open>json_escape\<close>: for a path with a double quote the response holds the quote as it
  is, and the program's own parser reads back a different path from it.
\<close>

theorem C6_file_stat_path_not_escaped:
  "handle_file_stat
     \<lparr>stat_result = Inr \<lparr>st_size = 12, st_mode = 33188, st_mtime = 0\<rparr>,
      strftime_gmtime = (\<lambda>t. ''1970-01-01T00:00:00Z''), stat_asprintf = True\<rparr>
     ''/tmp/a\"b''
   = Some (''{\"success\":true,\"data\":{\"path\":\"/tmp/a\"b\",\"size\":12,\"mode\":\"644\",\"mod_time\":\"1970-01-01T00:00:00Z\",\"is_dir\":false}}'' @ [LF])
   \<and> json_get_string True
        (''{\"success\":true,\"data\":{\"path\":\"/tmp/a\"b\",\"size\":12,\"mode\":\"644\",\"mod_time\":\"1970-01-01T00:00:00Z\",\"is_dir\":false}}'' @ [LF])
        ''path''
     = Some ''/tmp/a''"
proof
  have m: "print_o 420 = ''644''"
    by (simp add: print_o_def digits.simps hex_digit_def)
  have d: "print_d 12 = ''12''"
    by (simp add: print_d_def digits.simps hex_digit_def)
  show "handle_file_stat
     \<lparr>stat_result = Inr \<lparr>st_size = 12, st_mode = 33188, st_mtime = 0\<rparr>,
      strftime_gmtime = (\<lambda>t. ''1970-01-01T00:00:00Z''), stat_asprintf = True\<rparr>
     ''/tmp/a\"b''
   = Some (''{\"success\":true,\"data\":{\"path\":\"/tmp/a\"b\",\"size\":12,\"mode\":\"644\",\"mod_time\":\"1970-01-01T00:00:00Z\",\"is_dir\":false}}'' @ [LF])"
    by (simp add: handle_file_stat_def m d S_ISDIR_def)
next
  show "json_get_string True
        (''{\"success\":true,\"data\":{\"path\":\"/tmp/a\"b\",\"size\":12,\"mode\":\"644\",\"mod_time\":\"1970-01-01T00:00:00Z\",\"is_dir\":false}}'' @ [LF])
        ''path''
     = Some ''/tmp/a''"
    by (simp add: json_get_string_def search_key_def skip_sep_def get_string_switch_def)
qed

text \<open>
  Claim C9 (the escaped form is at most twice as long as the input, the bound of the
  allocation of \<open>2 * len + 1\<close> bytes). A control byte below 0x20 other than newline,
  carriage return and tab is written as six characters: for the one-byte string 0x01
  the loop stores six characters and a NUL into a buffer of three bytes.
\<close>

theorem C9_escape_overflows_its_buffer:
  "escape_loop [CHR 0x01] = [BS, CHR ''u'', CHR ''0'', CHR ''0'', CHR ''0'', CHR ''1'']
   \<and> 2 * length [CHR 0x01] < length (escape_loop [CHR 0x01])
   \<and> json_escape True [CHR 0x01] = Inl Write_Out_Of_Bounds"
  by code_simp




text \<open>
  Claim C3 (a request of exactly 128 MiB with a newline is read in full and
  processed; a request one byte larger is rejected without reading the excess). The
  loop reads while \<open>total < MAX_REQUEST_SIZE - 1\<close> and asks for at most
  \<open>MAX_REQUEST_SIZE - total - 1\<close> bytes, keeping the last byte of the buffer for the NUL,
  and the handler has no branch that rejects a request for its size. As amended,
  however the peer's bytes are split among the reads: the request is the reads the
  socket offers within 128 MiB - 1 bytes, up to and including the first read that
  holds a newline; it has at most 128 MiB - 1 bytes, is a prefix of what the peer
  sent, and the rest stays unread; when no read returns 0 and the first newline lies
  within the first 128 MiB - 1 bytes, the request holds the line up to and including
  that newline; when there is no newline within them, exactly those bytes are read;
  and what was read is dispatched like any other request.
\<close>

theorem C3_request_read_bounded:
  "fst (recv_loop sock []) = concat (upto_newline (reads_offered sock 134217727))
   \<and> length (fst (recv_loop sock [])) \<le> 134217727
   \<and> fst (recv_loop sock []) @ concat (snd (recv_loop sock [])) = concat sock
   \<and> ((\<forall>seg \<in> set sock. seg \<noteq> []) \<and> LF \<in> set (take 134217727 (concat sock)) \<longrightarrow>
        prefix (takeWhile (\<lambda>c. c \<noteq> LF) (concat sock) @ [LF]) (fst (recv_loop sock [])))
   \<and> ((\<forall>seg \<in> set sock. seg \<noteq> []) \<and> LF \<notin> set (take 134217727 (concat sock)) \<longrightarrow>
        fst (recv_loop sock []) = take 134217727 (concat sock))
   \<and> handle_connection True mem sock = Some (dispatch mem (c_str (fst (recv_loop sock []))))"
proof -
  have r: "fst (recv_loop sock []) = concat (upto_newline (reads_offered sock 134217727))"
    using recv_loop_reads [of "[]" sock] unfolding max_request by simp
  have s: "fst (recv_loop sock []) @ concat (snd (recv_loop sock [])) = concat sock"
    using recv_loop_stream [of sock "[]"] by simp
  have l: "length (fst (recv_loop sock [])) \<le> 134217727"
    using recv_loop_length [of "[]" sock, unfolded max_request] by simp
  have a: "prefix (takeWhile (\<lambda>c. c \<noteq> LF) (concat sock) @ [LF]) (fst (recv_loop sock []))"
    if "(\<forall>seg \<in> set sock. seg \<noteq> []) \<and> LF \<in> set (take 134217727 (concat sock))"
  proof -
    have c: "concat (reads_offered sock 134217727) = take 134217727 (concat sock)"
      using that by (intro reads_offered_concat) simp
    have "LF \<in> set (fst (recv_loop sock []))"
      unfolding r using that c upto_newline_has [of "reads_offered sock 134217727"] by simp
    moreover have "prefix (fst (recv_loop sock [])) (concat sock)"
      using s by (metis prefixI)
    ultimately show ?thesis by (intro first_line_prefix)
  qed
  have b: "fst (recv_loop sock []) = take 134217727 (concat sock)"
    if "(\<forall>seg \<in> set sock. seg \<noteq> []) \<and> LF \<notin> set (take 134217727 (concat sock))"
  proof -
    have c: "concat (reads_offered sock 134217727) = take 134217727 (concat sock)"
      using that by (intro reads_offered_concat) simp
    then have "upto_newline (reads_offered sock 134217727) = reads_offered sock 134217727"
      using that by (intro upto_newline_all) simp
    then show ?thesis unfolding r using c by simp
  qed
  have h: "handle_connection True mem sock = Some (dispatch mem (c_str (fst (recv_loop sock []))))"
    by (simp add: handle_connection_def)
  show ?thesis using r l s a b h by blast
qed

theorem C3_request_read_bounded_witness:
  "handle_connection True (\<lambda>k. True) [''{\"operation\":'', ''\"ping\"}'' @ [LF], ''next'']
       = Some (Reply (''{\"success\":true,\"data\":{\"pong\":true}}'' @ [LF]))
   \<and> fst (recv_loop [''{\"operation\":'', ''\"ping\"}'' @ [LF], ''next''] []) = ''{\"operation\":\"ping\"}'' @ [LF]
   \<and> prefix (''{\"operation\":\"ping\"}'' @ [LF])
        (fst (recv_loop [''{\"operation\":'', ''\"ping\"}'' @ [LF], ''next''] []))
   \<and> fst (recv_loop [replicate 134217728 (CHR ''x''), [LF]] []) = replicate 134217727 (CHR ''x'')"
proof -
  let ?sock = "[''{\"operation\":'', ''\"ping\"}'' @ [LF], ''next'']"
  let ?big = "[replicate 134217728 (CHR ''x''), [LF]]"
  note c = C3_request_read_bounded
  have "fst (recv_loop ?sock []) = concat (upto_newline (reads_offered ?sock 134217727))"
    using c [of ?sock] by (rule conjunct1)
  then have r1: "fst (recv_loop ?sock []) = ''{\"operation\":\"ping\"}'' @ [LF]"
    by simp
  have "handle_connection True (\<lambda>k. True) ?sock = Some (dispatch (\<lambda>k. True) (c_str (fst (recv_loop ?sock []))))"
    using c [of ?sock "\<lambda>k. True"] by blast
  also have "c_str (fst (recv_loop ?sock [])) = ''{\"operation\":\"ping\"}'' @ [LF]"
    unfolding r1 by (simp add: c_str_def)
  finally have r3: "handle_connection True (\<lambda>k. True) ?sock
       = Some (Reply (''{\"success\":true,\"data\":{\"pong\":true}}'' @ [LF]))"
    using dispatch_ping [of "[LF]"] by simp
  have g: "(\<forall>seg \<in> set ?sock. seg \<noteq> []) \<and> LF \<in> set (take 134217727 (concat ?sock))"
    by simp
  have "prefix (takeWhile (\<lambda>c. c \<noteq> LF) (concat ?sock) @ [LF]) (fst (recv_loop ?sock []))"
    using c [of ?sock] g by blast
  then have r4: "prefix (''{\"operation\":\"ping\"}'' @ [LF]) (fst (recv_loop ?sock []))"
    by simp
  have h: "(\<forall>seg \<in> set ?big. seg \<noteq> []) \<and> LF \<notin> set (take 134217727 (concat ?big))"
    by simp
  have "fst (recv_loop ?big []) = take 134217727 (concat ?big)"
    using c [of ?big] h by blast
  then have r2: "fst (recv_loop ?big []) = replicate 134217727 (CHR ''x'')" by simp
  show ?thesis using r1 r2 r3 r4 by blast
qed

text \<open>
  Against claim C3 as stated: of a request of exactly 128 MiB that ends in its newline
  the handler reads all but the newline; and a ping request padded with spaces to
  128 MiB + 1 bytes is answered like a ping, not rejected.
\<close>

theorem C3_full_size_request_cut:
  "length (replicate 134217727 (CHR ''x'') @ [LF]) = 128 * 1024 * 1024
   \<and> fst (recv_loop [replicate 134217727 (CHR ''x'') @ [LF]] []) = replicate 134217727 (CHR ''x'')
   \<and> handle_connection True (\<lambda>k. True)
        [''{\"operation\":\"ping\"}'' @ replicate 134217708 (CHR '' '') @ [LF]]
       = Some (Reply (''{\"success\":true,\"data\":{\"pong\":true}}'' @ [LF]))"
proof (intro conjI)
  let ?r = "replicate 134217727 (CHR ''x'') @ [LF]"
  show "length ?r = 128 * 1024 * 1024" by simp
  have "134217727 < length ?r" "LF \<notin> set (take 134217727 ?r)"
    by simp_all
  from recv_loop_truncates [unfolded max_request, OF this, of "[]"]
  show "fst (recv_loop [?r] []) = replicate 134217727 (CHR ''x'')"
    by simp
  let ?q = "''{\"operation\":\"ping\"}'' @ replicate 134217708 (CHR '' '') @ [LF]"
  have t: "take 134217727 ?q = ''{\"operation\":\"ping\"}'' @ replicate 134217707 (CHR '' '')"
    by simp
  have "134217727 < length ?q" "LF \<notin> set (take 134217727 ?q)"
    unfolding t by simp_all
  from recv_loop_truncates [unfolded max_request, OF this, of "[]"]
  have "fst (recv_loop [?q] []) = ''{\"operation\":\"ping\"}'' @ replicate 134217707 (CHR '' '')"
    unfolding t by simp
  moreover have "c_str (''{\"operation\":\"ping\"}'' @ replicate 134217707 (CHR '' ''))
     = ''{\"operation\":\"ping\"}'' @ replicate 134217707 (CHR '' '')"
    unfolding c_str_def by (rule takeWhile_eq_all_conv [THEN iffD2]) auto
  ultimately show "handle_connection True (\<lambda>k. True) [?q]
       = Some (Reply (''{\"success\":true,\"data\":{\"pong\":true}}'' @ [LF]))"
    using dispatch_ping [of "replicate 134217707 (CHR '' '')"]
    by (simp add: handle_connection_def)
qed

text \<open>
  Claim C8 (in every execution of the shutdown orchestration the listener socket is
  closed strictly before the first broadcast SIGTERM, and afterwards the process
  reboots, powers off or exits: control never returns to the main loop). The close is
  under the guard \<^verbatim>\<open>if (vsock_fd >= 0)\<close>. As amended, in the program order of the main
  thread: when \<open>do_shutdown\<close> finds a descriptor in \<open>vsock_fd\<close>, its first call closes
  it and its second is the broadcast of SIGTERM; when it finds -1 it makes no
  \<^verbatim>\<open>close\<close> and its first call is the broadcast; in both cases the calls go on to
  \<^verbatim>\<open>reboot\<close>, which is the last call when it succeeds and is followed by \<^verbatim>\<open>_exit(0)\<close>
  exactly when it fails; \<open>do_shutdown\<close> does not return, and \<open>main\<close> makes no call
  after it.
\<close>

theorem C8_shutdown_order:
  "do_shutdown os do_reboot vsock_fd =
     ((if 0 \<le> vsock_fd then [Close vsock_fd] else [])
      @ [Kill (-1) ''SIGTERM'', Sleep 2, Kill (-1) ''SIGKILL'']
      @ replicate (zombies os + 1) Waitpid_Any
      @ [Sync, Umount2 ''/tmp'', Umount2 ''/run'', Umount2 ''/dev/pts'', Umount2 ''/dev'',
         Umount2 ''/sys'', Umount2 ''/proc'', Sync,
         Reboot (if do_reboot then ''RB_AUTOBOOT'' else ''RB_POWER_OFF'')]
      @ (if reboot_fails os then [Exit 0] else []),
      if 0 \<le> vsock_fd then -1 else vsock_fd,
      Halted)
   \<and> main_from_loop rounds os do_reboot vsock_fd
       = (main_loop rounds @ fst (do_shutdown os do_reboot vsock_fd), Halted)"
  by (simp add: do_shutdown_calls main_from_loop_def)

text \<open>
  Against claim C8 as stated: with \<open>vsock_fd = -1\<close>, the value it has until the
  listener thread has stored its socket, \<open>do_shutdown\<close> closes nothing, and its first
  call is the broadcast of SIGTERM.
\<close>

theorem C8_no_listener_descriptor_no_close:
  "do_shutdown \<lparr>zombies = 0, reboot_fails = False\<rparr> False (-1)
     = ([Kill (-1) ''SIGTERM'', Sleep 2, Kill (-1) ''SIGKILL'', Waitpid_Any,
         Sync, Umount2 ''/tmp'', Umount2 ''/run'', Umount2 ''/dev/pts'', Umount2 ''/dev'',
         Umount2 ''/sys'', Umount2 ''/proc'', Sync, Reboot ''RB_POWER_OFF''], -1, Halted)"
  by (simp add: do_shutdown_def)


end
